theory Spec2Isabelle
  imports Main "HOL-Library.Word"
begin

section \<open>Testimonials slider\<close>

text \<open>
  The slider of \<^verbatim>\<open>type.js\<close> (lines 150 to 175) keeps three variables: the list
  \<^verbatim>\<open>items\<close>, of which only the length is read, the current index \<^verbatim>\<open>idx\<close> and the
  handle \<^verbatim>\<open>tsInterval\<close> of the autoplay timer. The browser keeps the set of interval
  timers that are running; \<^verbatim>\<open>setInterval\<close> adds a fresh handle to it and
  \<^verbatim>\<open>clearInterval\<close> removes one.
\<close>

text \<open>
  A number of JavaScript is an IEEE double. The slider computes on whole numbers only,
  so the model keeps integers and rounds every sum, difference and product to the nearest
  double: whole numbers up to \<open>2 ^ 53\<close> in magnitude are doubles themselves; above,
  a double has 53 significant bits, and a tie goes to the even significand. (A double is
  below \<open>2 ^ 1024\<close> in magnitude and an array length below \<open>2 ^ 32\<close>, so the
  results here never overflow.)
\<close>

fun bit_length :: "nat \<Rightarrow> nat" where
  "bit_length n = (if n = 0 then 0 else Suc (bit_length (n div 2)))"

declare bit_length.simps [simp del]

definition round_double :: "int \<Rightarrow> int" where
  "round_double x =
     (if \<bar>x\<bar> \<le> 2 ^ 53 then x
      else let n = nat \<bar>x\<bar>;
               q = 2 ^ (bit_length n - 53);
               m = n div q;
               r = n mod q;
               m' = (if 2 * r < q then m
                     else if q < 2 * r then m + 1
                     else if even m then m else m + 1)
           in sgn x * int (m' * q))"

definition js_add :: "int \<Rightarrow> int \<Rightarrow> int" where
  "js_add a b = round_double (a + b)"

definition js_sub :: "int \<Rightarrow> int \<Rightarrow> int" where
  "js_sub a b = round_double (a - b)"

definition js_mul :: "int \<Rightarrow> int \<Rightarrow> int" where
  "js_mul a b = round_double (a * b)"

text \<open>
  The remainder operator \<^verbatim>\<open>%\<close> of JavaScript truncates: the result has the sign of the
  dividend. On doubles it is exact.
\<close>

definition js_rem :: "int \<Rightarrow> int \<Rightarrow> int" where
  "js_rem a b = sgn a * (\<bar>a\<bar> mod \<bar>b\<bar>)"

record carousel =
  items :: nat
  idx :: int
  transform :: "int option"
  laid_out :: bool
  tsInterval :: nat
  active :: "nat list"
  next_handle :: nat

text \<open>
  \<^verbatim>\<open>showIdx(i)\<close>: nothing happens without items; otherwise the index becomes
  \<^verbatim>\<open>(i + items.length) % items.length\<close>, the track gets its layout styles
  (\<open>laid_out\<close>) and is translated by \<^verbatim>\<open>-idx * 100\<close> percent.
\<close>

definition showIdx :: "int \<Rightarrow> carousel \<Rightarrow> carousel" where
  "showIdx i st =
     (if items st = 0 then st
      else let idx' = js_rem (js_add i (int (items st))) (int (items st)) in
        st\<lparr>idx := idx', laid_out := True, transform := Some (js_mul (- idx') 100)\<rparr>)"

definition setInterval :: "carousel \<Rightarrow> nat \<times> carousel" where
  "setInterval st =
     (next_handle st,
      st\<lparr>active := active st @ [next_handle st], next_handle := next_handle st + 1\<rparr>)"

definition clearInterval :: "nat \<Rightarrow> carousel \<Rightarrow> carousel" where
  "clearInterval h st = st\<lparr>active := removeAll h (active st)\<rparr>"

datatype control = PrevBtn | NextBtn | Track

datatype ts_event = Click control | MouseEnter control | MouseLeave control | Tick nat

text \<open>
  The state after the block of lines 154 to 175 has run on a track with \<open>n\<close> items: the
  index is 0, the first timer is started and tracked, and \<^verbatim>\<open>showIdx(0)\<close> is called.
\<close>

definition ts_init :: "nat \<Rightarrow> carousel" where
  "ts_init n =
     (let st0 = \<lparr>items = n, idx = 0, transform = None, laid_out = False,
                  tsInterval = 0, active = [], next_handle = 1\<rparr>;
          (h, st1) = setInterval st0
      in showIdx 0 (st1\<lparr>tsInterval := h\<rparr>))"

text \<open>
  The listeners. A click on the previous or next button shows the neighbouring index (the
  track has no click listener); \<^verbatim>\<open>mouseenter\<close> on any of the three controls clears the
  tracked timer; \<^verbatim>\<open>mouseleave\<close> on any of them starts a timer and tracks it; a tick of a
  running timer \<open>h\<close> shows the next index.
\<close>

fun ts_step :: "ts_event \<Rightarrow> carousel \<Rightarrow> carousel" where
  "ts_step (Click PrevBtn) st = showIdx (js_sub (idx st) 1) st"
| "ts_step (Click NextBtn) st = showIdx (js_add (idx st) 1) st"
| "ts_step (Click Track) st = st"
| "ts_step (MouseEnter c) st = clearInterval (tsInterval st) st"
| "ts_step (MouseLeave c) st = (let (h, st') = setInterval st in st'\<lparr>tsInterval := h\<rparr>)"
| "ts_step (Tick h) st =
     (if h \<in> set (active st) then showIdx (js_add (idx st) 1) st else st)"

definition ts_run :: "carousel \<Rightarrow> ts_event list \<Rightarrow> carousel" where
  "ts_run st es = foldl (\<lambda>s e. ts_step e s) st es"

section \<open>Strings\<close>

text \<open>
  A JavaScript string is a sequence of UTF-16 code units; \<^verbatim>\<open>length\<close> counts them.
  \<open>ascii\<close> writes a literal of the source.
\<close>

type_synonym js_string = "16 word list"

definition ascii :: "string \<Rightarrow> js_string" where
  "ascii s = map (\<lambda>c. of_nat (of_char c)) s"

section \<open>Dark mode toggle with persistence\<close>

text \<open>
  \<^verbatim>\<open>body.classList\<close> is an ordered set of tokens: \<^verbatim>\<open>add\<close> appends a token that is
  not there, \<^verbatim>\<open>remove\<close> deletes it, \<^verbatim>\<open>contains\<close> tests membership.
\<close>

definition classList_add :: "js_string \<Rightarrow> js_string list \<Rightarrow> js_string list" where
  "classList_add c cl = (if c \<in> set cl then cl else cl @ [c])"

definition classList_remove :: "js_string \<Rightarrow> js_string list \<Rightarrow> js_string list" where
  "classList_remove c cl = removeAll c cl"

definition classList_contains :: "js_string \<Rightarrow> js_string list \<Rightarrow> bool" where
  "classList_contains c cl = (c \<in> set cl)"

text \<open>
  \<^verbatim>\<open>localStorage\<close>: its entries, and whether reading and writing work. Both calls of the
  source stand in a \<^verbatim>\<open>try\<close>, since \<^verbatim>\<open>getItem\<close> and \<^verbatim>\<open>setItem\<close> throw when the
  storage is disabled or full; an exception is the left summand.
\<close>

record storage =
  entries :: "js_string \<rightharpoonup> js_string"
  readable :: bool
  writable :: bool

datatype dom_exception = SecurityError | QuotaExceededError

definition getItem :: "storage \<Rightarrow> js_string \<Rightarrow> dom_exception + js_string option" where
  "getItem s k = (if readable s then Inr (entries s k) else Inl SecurityError)"

definition setItem :: "storage \<Rightarrow> js_string \<Rightarrow> js_string \<Rightarrow> dom_exception + storage" where
  "setItem s k v =
     (if writable s then Inr (s\<lparr>entries := (entries s)(k \<mapsto> v)\<rparr>) else Inl QuotaExceededError)"

text \<open>
  What the theme code reads and writes: the class list of the body, the storage, the
  markup of the toggle button (\<open>None\<close> when the page has no \<^verbatim>\<open>#darkToggle\<close>) and the
  answer of \<^verbatim>\<open>window.matchMedia('(prefers-color-scheme: dark)').matches\<close> (\<open>None\<close>
  when the browser has no \<^verbatim>\<open>matchMedia\<close>).
\<close>

record theme_page =
  body :: "js_string list"
  localStorage :: storage
  darkToggle :: "js_string option"
  matchMedia :: "bool option"

definition themeKey :: js_string where
  "themeKey = ascii ''procorp-theme''"

definition theme_dark :: js_string where
  "theme_dark = ascii ''theme-dark''"

definition theme_light :: js_string where
  "theme_light = ascii ''theme-light''"

definition dark :: js_string where
  "dark = ascii ''dark''"

definition light :: js_string where
  "light = ascii ''light''"

definition icon_sun :: js_string where
  "icon_sun = ascii ''<i class=\"fa-solid fa-sun\"></i>''"

definition icon_moon :: js_string where
  "icon_moon = ascii ''<i class=\"fa-solid fa-moon\"></i>''"

definition applyTheme :: "js_string \<Rightarrow> theme_page \<Rightarrow> theme_page" where
  "applyTheme mode p =
     (let b = (if mode = dark
               then classList_remove theme_light (classList_add theme_dark (body p))
               else classList_remove theme_dark (classList_add theme_light (body p)));
          ls = (case setItem (localStorage p) themeKey mode of
                  Inl e \<Rightarrow> localStorage p
                | Inr s \<Rightarrow> s);
          t = (case darkToggle p of
                 None \<Rightarrow> None
               | Some h \<Rightarrow> Some (if mode = dark then icon_sun else icon_moon))
      in p\<lparr>body := b, localStorage := ls, darkToggle := t\<rparr>)"

text \<open>
  Lines 102 to 108. \<^verbatim>\<open>stored\<close> is null when \<^verbatim>\<open>getItem\<close> throws; \<^verbatim>\<open>if (stored)\<close>
  takes a string that is not empty.
\<close>

definition theme_fallback :: "theme_page \<Rightarrow> theme_page" where
  "theme_fallback p =
     (let prefersDark = (case matchMedia p of None \<Rightarrow> False | Some m \<Rightarrow> m)
      in applyTheme (if prefersDark then dark else light) p)"

definition theme_init :: "theme_page \<Rightarrow> theme_page" where
  "theme_init p =
     (let stored = (case getItem (localStorage p) themeKey of
                      Inl e \<Rightarrow> None
                    | Inr v \<Rightarrow> v)
      in case stored of
           None \<Rightarrow> theme_fallback p
         | Some v \<Rightarrow> if v \<noteq> [] then applyTheme v p else theme_fallback p)"

text \<open>The click listener of the toggle button; without the button there is none.\<close>

definition toggle_click :: "theme_page \<Rightarrow> theme_page" where
  "toggle_click p =
     (case darkToggle p of
        None \<Rightarrow> p
      | Some h \<Rightarrow>
          (let isDark = classList_contains theme_dark (body p)
           in applyTheme (if isDark then light else dark) p))"

text \<open>Pages used as concrete inputs.\<close>

definition page_light :: theme_page where
  "page_light =
     \<lparr>body = [ascii ''home'', theme_light],
      localStorage = \<lparr>entries = [themeKey \<mapsto> light], readable = True, writable = True\<rparr>,
      darkToggle = Some icon_moon, matchMedia = Some False\<rparr>"

definition page_storage_full :: theme_page where
  "page_storage_full =
     \<lparr>body = [theme_light],
      localStorage = \<lparr>entries = [themeKey \<mapsto> light], readable = True, writable = False\<rparr>,
      darkToggle = Some icon_moon, matchMedia = Some False\<rparr>"

definition page_stored :: "js_string \<Rightarrow> theme_page" where
  "page_stored v =
     \<lparr>body = [],
      localStorage = \<lparr>entries = [themeKey \<mapsto> v], readable = True, writable = True\<rparr>,
      darkToggle = Some [], matchMedia = Some True\<rparr>"

definition page_fresh :: "bool option \<Rightarrow> theme_page" where
  "page_fresh m =
     \<lparr>body = [],
      localStorage = \<lparr>entries = Map.empty, readable = True, writable = True\<rparr>,
      darkToggle = Some [], matchMedia = m\<rparr>"

section \<open>Contact form validation and fake submit\<close>

text \<open>
  \<^verbatim>\<open>String.prototype.trim\<close> strips the white space and line terminator code units of
  ECMAScript from both ends; the class \<^verbatim>\<open>\s\<close> of a regular expression is the same set.
\<close>

definition is_space :: "16 word \<Rightarrow> bool" where
  "is_space c = (c \<in> set [0x0009, 0x000A, 0x000B, 0x000C, 0x000D, 0x0020, 0x00A0, 0x1680,
      0x2000, 0x2001, 0x2002, 0x2003, 0x2004, 0x2005, 0x2006, 0x2007, 0x2008, 0x2009, 0x200A,
      0x2028, 0x2029, 0x202F, 0x205F, 0x3000, 0xFEFF])"

definition trim :: "js_string \<Rightarrow> js_string" where
  "trim s = rev (dropWhile is_space (rev (dropWhile is_space s)))"

definition at_sign :: "16 word" where
  "at_sign = 0x40"

definition dot :: "16 word" where
  "dot = 0x2E"

text \<open>
  The regular expression of \<^verbatim>\<open>validateEmail\<close> is a sequence of atoms between \<^verbatim>\<open>^\<close> and
  \<^verbatim>\<open>$\<close>: a literal code unit, or one or more code units outside a class. \<open>re_match\<close>
  is the backtracking matcher on such a sequence: it starts at the first code unit and
  succeeds only at the end of the string.
\<close>

datatype re_atom = Lit "16 word" | PlusNot "16 word \<Rightarrow> bool"

fun re_match :: "re_atom list \<Rightarrow> js_string \<Rightarrow> bool" where
  "re_match [] s = (s = [])"
| "re_match (Lit a # r) [] = False"
| "re_match (Lit a # r) (c # cs) = (c = a \<and> re_match r cs)"
| "re_match (PlusNot cls # r) [] = False"
| "re_match (PlusNot cls # r) (c # cs) =
     (\<not> cls c \<and> (re_match (PlusNot cls # r) cs \<or> re_match r cs))"

definition space_or_at :: "16 word \<Rightarrow> bool" where
  "space_or_at c = (is_space c \<or> c = at_sign)"

text \<open>\<^verbatim>\<open>/^[^\s@]+@[^\s@]+\.[^\s@]+$/\<close>\<close>

definition email_re :: "re_atom list" where
  "email_re = [PlusNot space_or_at, Lit at_sign, PlusNot space_or_at, Lit dot, PlusNot space_or_at]"

text \<open>
  \<^verbatim>\<open>validateEmail\<close> is called on a string, for which \<^verbatim>\<open>String(email || '')\<close> is the
  string itself. \<^verbatim>\<open>toLowerCase\<close> follows the case mapping of Unicode, a table that is
  not part of the script: it is a parameter.
\<close>

definition validateEmail :: "(js_string \<Rightarrow> js_string) \<Rightarrow> js_string \<Rightarrow> bool" where
  "validateEmail toLowerCase email = re_match email_re (toLowerCase email)"

text \<open>
  What is known of the case mapping: the result is the concatenation of one piece for each
  code unit of the argument; no piece is empty; white space, \<^verbatim>\<open>@\<close> and \<^verbatim>\<open>.\<close> are
  their own pieces, and the piece of any other code unit contains none of them.
\<close>

definition special :: "16 word \<Rightarrow> bool" where
  "special c = (is_space c \<or> c = at_sign \<or> c = dot)"

definition piece_ok :: "16 word \<Rightarrow> js_string \<Rightarrow> bool" where
  "piece_ok c p = (p \<noteq> [] \<and> (if special c then p = [c] else \<not> list_ex special p))"

definition case_mapping :: "(js_string \<Rightarrow> js_string) \<Rightarrow> bool" where
  "case_mapping f = (\<forall>s. \<exists>ps. list_all2 piece_ok s ps \<and> f s = concat ps)"

text \<open>The case mapping restricted to the letters of ASCII.\<close>

definition ascii_lower :: "js_string \<Rightarrow> js_string" where
  "ascii_lower s = map (\<lambda>c. if 0x41 \<le> c \<and> c \<le> 0x5A then c + 0x20 else c) s"

text \<open>
  The shape that C5 describes, in its words: exactly one \<^verbatim>\<open>@\<close> with text on both sides,
  a \<^verbatim>\<open>.\<close> after the \<^verbatim>\<open>@\<close> with text after it, and no white space.
\<close>

definition after_at :: "js_string \<Rightarrow> js_string" where
  "after_at s = tl (dropWhile (\<lambda>c. c \<noteq> at_sign) s)"

definition spec_email_shape :: "js_string \<Rightarrow> bool" where
  "spec_email_shape s =
     (count_list s at_sign = 1
      \<and> takeWhile (\<lambda>c. c \<noteq> at_sign) s \<noteq> [] \<and> after_at s \<noteq> []
      \<and> dot \<in> set (butlast (after_at s))
      \<and> \<not> list_ex is_space s)"

text \<open>
  The shape the expression accepts: the \<^verbatim>\<open>.\<close> also has text between the \<^verbatim>\<open>@\<close> and
  itself.
\<close>

definition email_shape :: "js_string \<Rightarrow> bool" where
  "email_shape s =
     (count_list s at_sign = 1
      \<and> takeWhile (\<lambda>c. c \<noteq> at_sign) s \<noteq> [] \<and> after_at s \<noteq> []
      \<and> dot \<in> set (butlast (tl (after_at s)))
      \<and> \<not> list_ex is_space s)"

text \<open>
  The form and its three named controls (a control may be missing from the markup), the
  response element (\<open>None\<close> without \<^verbatim>\<open>#formResponse\<close>), the computed value of
  \<^verbatim>\<open>--accent-600\<close> and the callbacks that \<^verbatim>\<open>setTimeout\<close> has pending, each with its
  delay.
\<close>

record control_state =
  ctl_value :: js_string
  ctl_default :: js_string

record form_state =
  f_name :: "control_state option"
  f_email :: "control_state option"
  f_message :: "control_state option"

record response =
  textContent :: js_string
  color :: js_string

datatype task = ConfirmSend

record form_page =
  form :: form_state
  formResponse :: "response option"
  accent :: js_string
  timeouts :: "(nat \<times> task) list"

definition msg_name :: js_string where
  "msg_name = ascii ''Please enter your name.''"

definition msg_email :: js_string where
  "msg_email = ascii ''Please enter a valid email.''"

definition msg_length :: js_string where
  "msg_length = ascii ''Message must be at least 10 characters.''"

text \<open>
  The literal of line 133 is \<^verbatim>\<open>Sending\<close> followed by the three characters U+00E2,
  U+20AC and U+00A6, as the file has them.
\<close>

definition msg_sending :: js_string where
  "msg_sending = ascii ''Sending'' @ [0x00E2, 0x20AC, 0x00A6]"

definition msg_thanks :: js_string where
  "msg_thanks = ascii ''Thank you! Your message has been received. We will contact you shortly.''"

definition error_color :: js_string where
  "error_color = ascii ''#d9534f''"

text \<open>
  \<^verbatim>\<open>(form.x && form.x.value) ? form.x.value.trim() : ''\<close>
\<close>

definition field_value :: "control_state option \<Rightarrow> js_string" where
  "field_value c =
     (case c of
        None \<Rightarrow> []
      | Some x \<Rightarrow> if ctl_value x \<noteq> [] then trim (ctl_value x) else [])"

definition showFormError :: "js_string \<Rightarrow> form_page \<Rightarrow> form_page" where
  "showFormError msg p =
     (case formResponse p of
        None \<Rightarrow> p
      | Some r \<Rightarrow> p\<lparr>formResponse := Some (r\<lparr>color := error_color, textContent := msg\<rparr>)\<rparr>)"

text \<open>The submit listener, lines 116 to 138.\<close>

definition submit :: "(js_string \<Rightarrow> js_string) \<Rightarrow> form_page \<Rightarrow> form_page" where
  "submit toLowerCase p =
     (case formResponse p of
        None \<Rightarrow> p
      | Some r \<Rightarrow>
          (let p1 = p\<lparr>formResponse := Some (r\<lparr>textContent := []\<rparr>)\<rparr>;
               name = field_value (f_name (form p));
               email = field_value (f_email (form p));
               message = field_value (f_message (form p))
           in if name = [] then showFormError msg_name p1
              else if \<not> validateEmail toLowerCase email then showFormError msg_email p1
              else if message = [] \<or> length message < 10 then showFormError msg_length p1
              else p1\<lparr>formResponse :=
                        Some (r\<lparr>color := (if accent p \<noteq> [] then accent p else ascii ''#0b77d1''),
                                textContent := msg_sending\<rparr>),
                      timeouts := timeouts p @ [(900, ConfirmSend)]\<rparr>))"

text \<open>\<^verbatim>\<open>form.reset()\<close> gives every control its default value.\<close>

definition reset_control :: "control_state option \<Rightarrow> control_state option" where
  "reset_control c = map_option (\<lambda>x. x\<lparr>ctl_value := ctl_default x\<rparr>) c"

definition form_reset :: "form_state \<Rightarrow> form_state" where
  "form_reset f =
     f\<lparr>f_name := reset_control (f_name f), f_email := reset_control (f_email f),
       f_message := reset_control (f_message f)\<rparr>"

text \<open>The callback of lines 134 to 137; it is only created where the response exists.\<close>

fun run_task :: "task \<Rightarrow> form_page \<Rightarrow> form_page" where
  "run_task ConfirmSend p =
     p\<lparr>formResponse := map_option (\<lambda>r. r\<lparr>textContent := msg_thanks\<rparr>) (formResponse p),
       form := form_reset (form p)\<rparr>"

text \<open>The oldest pending callback runs when its delay has passed.\<close>

definition timeout_fires :: "form_page \<Rightarrow> form_page" where
  "timeout_fires p =
     (case timeouts p of
        [] \<Rightarrow> p
      | (d, t) # rest \<Rightarrow> run_task t (p\<lparr>timeouts := rest\<rparr>))"

text \<open>A form page used as a concrete input, with the three values typed in.\<close>

definition page_form :: "js_string \<Rightarrow> js_string \<Rightarrow> js_string \<Rightarrow> form_page" where
  "page_form n e m =
     \<lparr>form = \<lparr>f_name = Some \<lparr>ctl_value = n, ctl_default = []\<rparr>,
              f_email = Some \<lparr>ctl_value = e, ctl_default = []\<rparr>,
              f_message = Some \<lparr>ctl_value = m, ctl_default = []\<rparr>\<rparr>,
      formResponse = Some \<lparr>textContent = [], color = []\<rparr>,
      accent = [], timeouts = []\<rparr>"

section \<open>Reveal on scroll\<close>

text \<open>
  Elements are numbered. The state is the class list of every element and the set of
  elements the \<^verbatim>\<open>IntersectionObserver\<close> watches; an entry names its target and says
  whether the target intersects the viewport, as the browser reports it for the threshold
  the observer was created with.
\<close>

record entry =
  target :: nat
  isIntersecting :: bool

record reveal_state =
  classes :: "nat \<Rightarrow> js_string list"
  observed :: "nat set"

definition is_visible :: js_string where
  "is_visible = ascii ''is-visible''"

text \<open>The callback of lines 68 to 75: a loop over the entries.\<close>

fun observer_callback :: "entry list \<Rightarrow> reveal_state \<Rightarrow> reveal_state" where
  "observer_callback [] st = st"
| "observer_callback (ent # ents) st =
     observer_callback ents
       (if isIntersecting ent
        then st\<lparr>classes := (classes st)
                   (target ent := classList_add is_visible (classes st (target ent))),
                observed := observed st - {target ent}\<rparr>
        else st)"

text \<open>
  Line 76 starts watching every element that has \<^verbatim>\<open>data-animate\<close>. The browser calls the
  callback with a batch of entries, and only makes entries for targets that are watched.
\<close>

definition reveal_init :: "nat list \<Rightarrow> (nat \<Rightarrow> js_string list) \<Rightarrow> reveal_state" where
  "reveal_init els cls = \<lparr>classes = cls, observed = set els\<rparr>"

definition deliver :: "entry list \<Rightarrow> reveal_state \<Rightarrow> reveal_state" where
  "deliver batch st = observer_callback (filter (\<lambda>ent. target ent \<in> observed st) batch) st"

definition reveal_run :: "reveal_state \<Rightarrow> entry list list \<Rightarrow> reveal_state" where
  "reveal_run st batches = foldl (\<lambda>s b. deliver b s) st batches"

definition revealed :: "reveal_state \<Rightarrow> nat \<Rightarrow> bool" where
  "revealed st e = classList_contains is_visible (classes st e)"

text \<open>
  How often element \<open>e\<close> goes from not revealed to revealed in a run, and whether a batch
  reports it as intersecting.
\<close>

fun reveal_count :: "reveal_state \<Rightarrow> entry list list \<Rightarrow> nat \<Rightarrow> nat" where
  "reveal_count st [] e = 0"
| "reveal_count st (b # bs) e =
     (if \<not> revealed st e \<and> revealed (deliver b st) e then 1 else 0)
       + reveal_count (deliver b st) bs e"

definition intersects :: "nat \<Rightarrow> entry list \<Rightarrow> bool" where
  "intersects e batch = list_ex (\<lambda>ent. target ent = e \<and> isIntersecting ent) batch"

text \<open>
  Concrete inputs: two watched elements without classes; a batch in which element 1
  enters and leaves the viewport, a batch in which both elements are outside it, and a
  batch in which element 2 enters.
\<close>

definition batch_second :: "entry list" where
  "batch_second = [\<lparr>target = 2, isIntersecting = True\<rparr>]"

definition reveal_example :: reveal_state where
  "reveal_example = reveal_init [1, 2] (\<lambda>e. [])"

definition batch_enter :: "entry list" where
  "batch_enter = [\<lparr>target = 1, isIntersecting = True\<rparr>, \<lparr>target = 1, isIntersecting = False\<rparr>]"

definition batch_outside :: "entry list" where
  "batch_outside = [\<lparr>target = 1, isIntersecting = False\<rparr>, \<lparr>target = 2, isIntersecting = False\<rparr>]"

section \<open>Properties of the slider\<close>

lemma round_double_exact: "\<bar>x\<bar> \<le> 2 ^ 53 \<Longrightarrow> round_double x = x"
  by (simp add: round_double_def)

lemma js_rem_nonneg: "0 \<le> a \<Longrightarrow> 0 < b \<Longrightarrow> js_rem a b = a mod b"
  by (cases "a = 0") (simp_all add: js_rem_def)

lemma js_rem_neg: "a < 0 \<Longrightarrow> 0 < b \<Longrightarrow> js_rem a b = - ((- a) mod b)"
  by (simp add: js_rem_def)

lemma js_rem_bounds:
  assumes "0 < b"
  shows "- b < js_rem a b \<and> js_rem a b < b"
proof (cases "0 \<le> a")
  case True
  with assms have "js_rem a b = a mod b" by (simp add: js_rem_nonneg)
  moreover from assms have "0 \<le> a mod b" and "a mod b < b" by simp_all
  ultimately show ?thesis using assms by linarith
next
  case False
  with assms have "js_rem a b = - ((- a) mod b)" by (simp add: js_rem_neg)
  moreover from assms have "0 \<le> (- a) mod b" and "(- a) mod b < b" by simp_all
  ultimately show ?thesis using assms by linarith
qed

lemma js_rem_normalise: "0 < n \<Longrightarrow> js_rem (js_rem i n + n) n = i mod n"
proof (cases "0 \<le> i")
  case True
  assume n: "0 < n"
  from True n have "js_rem i n = i mod n" by (rule js_rem_nonneg)
  moreover from n have "0 \<le> i mod n + n" by simp
  ultimately show ?thesis using n by (simp add: js_rem_nonneg)
next
  case False
  assume n: "0 < n"
  from False n have r: "js_rem i n = - ((- i) mod n)" by (simp add: js_rem_neg)
  from n have "(- i) mod n < n" by simp
  then have "0 \<le> - ((- i) mod n) + n" by simp
  then have "js_rem (- ((- i) mod n) + n) n = (- ((- i) mod n) + n) mod n"
    using n by (rule js_rem_nonneg)
  also have "\<dots> = (- ((- i) mod n)) mod n" by simp
  also have "\<dots> = i mod n" by (simp add: mod_minus_eq)
  finally show ?thesis using r by simp
qed

lemma showIdx_idx_mod:
  assumes "0 < items st" and "- int (items st) \<le> i" and "i + int (items st) \<le> 2 ^ 53"
  shows "idx (showIdx i st) = i mod int (items st)"
proof -
  let ?n = "int (items st)"
  from assms have n: "0 < ?n" and nn: "0 \<le> i + ?n" by simp_all
  from nn assms(3) have "\<bar>i + ?n\<bar> \<le> 2 ^ 53" by simp
  then have "js_add i ?n = i + ?n" by (simp add: js_add_def round_double_exact)
  then have "idx (showIdx i st) = js_rem (i + ?n) ?n"
    using assms by (simp add: showIdx_def Let_def)
  also have "\<dots> = (i + ?n) mod ?n" using nn n by (rule js_rem_nonneg)
  also have "\<dots> = i mod ?n" by simp
  finally show ?thesis .
qed

text \<open>
  C1, as the code has it. On a carousel of \<open>N \<ge> 1\<close> items (an array length, so
  \<open>N < 2 ^ 32\<close>) and for every integer \<open>i\<close> with \<open>-N \<le> i\<close> and \<open>i + N \<le> 2 ^ 53\<close>,
  \<^verbatim>\<open>showIdx(i)\<close> sets the current index to \<^verbatim>\<open>((i % N) + N) % N\<close>, which lies in the
  range from 0 up to but excluding \<open>N\<close>.
\<close>

theorem showIdx_normalises:
  assumes "0 < items st" and "items st < 2 ^ 32"
    and "- int (items st) \<le> i" and "i + int (items st) \<le> 2 ^ 53"
  shows "idx (showIdx i st)
       = js_rem (js_add (js_rem i (int (items st))) (int (items st))) (int (items st))
     \<and> 0 \<le> idx (showIdx i st) \<and> idx (showIdx i st) < int (items st)"
proof -
  let ?n = "int (items st)"
  from assms have n: "0 < ?n" and small: "?n < 2 ^ 32" by simp_all
  from assms have e: "idx (showIdx i st) = i mod ?n" by (intro showIdx_idx_mod)
  from n have "- ?n < js_rem i ?n \<and> js_rem i ?n < ?n" by (rule js_rem_bounds)
  with small have "\<bar>js_rem i ?n + ?n\<bar> \<le> 2 ^ 53" by simp
  then have "js_add (js_rem i ?n) ?n = js_rem i ?n + ?n"
    by (simp add: js_add_def round_double_exact)
  moreover from n have "js_rem (js_rem i ?n + ?n) ?n = i mod ?n" by (rule js_rem_normalise)
  ultimately show ?thesis using e n by simp
qed

lemma ts_init_simps [simp]:
  "items (ts_init n) = n" "active (ts_init n) = [1]" "tsInterval (ts_init n) = 1"
  "next_handle (ts_init n) = 2"
  by (simp_all add: ts_init_def setInterval_def showIdx_def Let_def)

theorem showIdx_normalises_witness:
  "0 < items (ts_init 3) \<and> items (ts_init 3) < 2 ^ 32
   \<and> - int (items (ts_init 3)) \<le> - 1 \<and> - 1 + int (items (ts_init 3)) \<le> 2 ^ 53
   \<and> idx (showIdx (- 1) (ts_init 3)) = 2
   \<and> js_rem (js_add (js_rem (- 1) 3) 3) 3 = 2"
proof -
  have a: "0 < items (ts_init 3)" and b: "items (ts_init 3) < 2 ^ 32"
    and c: "- int (items (ts_init 3)) \<le> - 1" and d: "- 1 + int (items (ts_init 3)) \<le> 2 ^ 53"
    by simp_all
  have f: "js_rem (js_add (js_rem (- 1) 3) 3) 3 = 2"
    by (simp add: js_rem_def js_add_def round_double_def)
  from showIdx_normalises [OF a b c d] f have "idx (showIdx (- 1) (ts_init 3)) = 2" by simp
  with a b c d f show ?thesis by blast
qed

text \<open>
  C1 as stated fails on both sides of that range. Below \<open>-N\<close>: on three items
  \<^verbatim>\<open>showIdx(-5)\<close> computes \<^verbatim>\<open>(-5 + 3) % 3\<close>, which is \<open>-2\<close> and outside the range,
  where \<^verbatim>\<open>((-5 % 3) + 3) % 3\<close> is 1. Above: the sum \<open>2 ^ 53 + 3\<close> is no double and is
  rounded to \<open>2 ^ 53 + 4\<close>, so \<^verbatim>\<open>showIdx(2 ** 53)\<close> gives 0, where
  \<^verbatim>\<open>((2 ** 53 % 3) + 3) % 3\<close> is 2.
\<close>

lemma bit_length_0: "bit_length 0 = 0"
  by (simp add: bit_length.simps)

lemma bit_length_pos: "0 < n \<Longrightarrow> bit_length n = Suc (bit_length (n div 2))"
  by (subst bit_length.simps) simp

lemma round_double_tie: "round_double 9007199254740995 = 9007199254740996"
  by (simp add: round_double_def bit_length_0 bit_length_pos Let_def)

theorem showIdx_below_range_counterexample:
  "items (ts_init 3) = 3 \<and> idx (showIdx (- 5) (ts_init 3)) = - 2
   \<and> js_rem (js_add (js_rem (- 5) 3) 3) 3 = 1
   \<and> idx (showIdx (2 ^ 53) (ts_init 3)) = 0
   \<and> js_rem (js_add (js_rem (2 ^ 53) 3) 3) 3 = 2"
proof -
  have 1: "idx (showIdx (- 5) (ts_init 3)) = - 2"
    by (simp add: showIdx_def Let_def js_add_def round_double_def js_rem_def)
  have 2: "js_rem (js_add (js_rem (- 5) 3) 3) 3 = 1"
    by (simp add: js_rem_def js_add_def round_double_def)
  have 3: "idx (showIdx (2 ^ 53) (ts_init 3)) = 0"
    by (simp add: showIdx_def Let_def js_add_def round_double_tie js_rem_def)
  have 4: "js_rem (js_add (js_rem (2 ^ 53) 3) 3) 3 = 2"
    by (simp add: js_rem_def js_add_def round_double_def)
  from 1 2 3 4 show ?thesis by simp
qed

lemma showIdx_frame [simp]:
  "items (showIdx i st) = items st" "active (showIdx i st) = active st"
  "tsInterval (showIdx i st) = tsInterval st" "next_handle (showIdx i st) = next_handle st"
  by (simp_all add: showIdx_def Let_def)

lemma ts_step_items [simp]: "items (ts_step e st) = items st"
  by (cases "(e, st)" rule: ts_step.cases)
    (simp_all add: clearInterval_def setInterval_def)

text \<open>
  Every call of \<^verbatim>\<open>showIdx\<close> that a listener or a timer makes passes \<open>idx - 1\<close> or
  \<open>idx + 1\<close>, so the index stays in range under every sequence of events.
\<close>

lemma ts_step_idx_in_range:
  assumes "0 \<le> idx st" and "idx st < int (items st)" and "items st < 2 ^ 32"
  shows "0 \<le> idx (ts_step e st) \<and> idx (ts_step e st) < int (items st)"
proof -
  from assms have pos: "0 < items st" by simp
  from assms have small: "int (items st) < 2 ^ 32" by simp
  from assms small have sub: "js_sub (idx st) 1 = idx st - 1" and add: "js_add (idx st) 1 = idx st + 1"
    by (simp_all add: js_sub_def js_add_def round_double_exact)
  have lo: "- int (items st) \<le> idx st - 1" and hi: "- int (items st) \<le> idx st + 1"
    using assms by simp_all
  have lo': "idx st - 1 + int (items st) \<le> 2 ^ 53" and hi': "idx st + 1 + int (items st) \<le> 2 ^ 53"
    using assms small by simp_all
  from pos have n: "0 < int (items st)" by simp
  note prev = showIdx_idx_mod [OF pos lo lo'] and nxt = showIdx_idx_mod [OF pos hi hi']
  show ?thesis
  proof (cases "(e, st)" rule: ts_step.cases)
    case (1 s) with prev n sub show ?thesis by simp
  next
    case (2 s) with nxt n add show ?thesis by simp
  next
    case (3 s) with assms show ?thesis by simp
  next
    case (4 c s) with assms show ?thesis by (simp add: clearInterval_def)
  next
    case (5 c s) with assms show ?thesis by (simp add: setInterval_def)
  next
    case (6 h s) with assms nxt n add show ?thesis by simp
  qed
qed

lemma ts_run_idx_in_range:
  "0 \<le> idx st \<Longrightarrow> idx st < int (items st) \<Longrightarrow> items st < 2 ^ 32 \<Longrightarrow>
   0 \<le> idx (ts_run st es) \<and> idx (ts_run st es) < int (items st)"
proof (induction es arbitrary: st)
  case Nil
  then show ?case by (simp add: ts_run_def)
next
  case (Cons e es)
  from ts_step_idx_in_range [OF Cons.prems]
  have "0 \<le> idx (ts_step e st)" and "idx (ts_step e st) < int (items (ts_step e st))"
    by simp_all
  moreover from Cons.prems have "items (ts_step e st) < 2 ^ 32" by simp
  ultimately show ?case using Cons.IH [of "ts_step e st"] by (simp add: ts_run_def)
qed

text \<open>
  C2 at a concrete input. The pointer enters the track, enters the previous button, leaves
  the button and leaves the track. The first \<^verbatim>\<open>mouseleave\<close> starts timer 2, the second
  starts timer 3 without clearing timer 2: two timers run, only timer 3 is tracked, and a
  later \<^verbatim>\<open>mouseenter\<close> clears timer 3 alone, so timer 2 keeps advancing the slider
  while the pointer is over it. A \<^verbatim>\<open>mouseleave\<close> that no \<^verbatim>\<open>mouseenter\<close> came before
  (the pointer rested on the track while the page loaded) starts timer 2 beside timer 1.
\<close>

theorem hover_leaks_timer:
  "active (ts_init 3) = [1]
   \<and> active (ts_run (ts_init 3) [MouseLeave Track]) = [1, 2]
   \<and> active (ts_run (ts_init 3)
      [MouseEnter Track, MouseEnter PrevBtn, MouseLeave PrevBtn, MouseLeave Track]) = [2, 3]
   \<and> tsInterval (ts_run (ts_init 3)
      [MouseEnter Track, MouseEnter PrevBtn, MouseLeave PrevBtn, MouseLeave Track]) = 3
   \<and> active (ts_run (ts_init 3)
      [MouseEnter Track, MouseEnter PrevBtn, MouseLeave PrevBtn, MouseLeave Track,
       MouseEnter Track]) = [2]
   \<and> idx (ts_run (ts_init 3)
      [MouseEnter Track, MouseEnter PrevBtn, MouseLeave PrevBtn, MouseLeave Track,
       MouseEnter Track, Tick 2]) = 1"
  by (simp add: ts_run_def ts_init_def setInterval_def clearInterval_def showIdx_def
      Let_def js_rem_def js_add_def js_mul_def round_double_def)

text \<open>
  What the listeners do guarantee: when no timer but the tracked one runs, a
  \<^verbatim>\<open>mouseenter\<close> followed by a \<^verbatim>\<open>mouseleave\<close> leaves exactly the new tracked timer
  running.
\<close>

lemma enter_then_leave_single_timer:
  assumes "set (active st) \<subseteq> {tsInterval st}"
  shows "active (ts_step (MouseLeave c') (ts_step (MouseEnter c) st))
     = [tsInterval (ts_step (MouseLeave c') (ts_step (MouseEnter c) st))]"
proof -
  from assms have "removeAll (tsInterval st) (active st) = []"
    by (auto simp: removeAll_filter_not_eq filter_empty_conv)
  then show ?thesis by (simp add: clearInterval_def setInterval_def)
qed

section \<open>Properties of the theme\<close>

lemma theme_consts_distinct:
  "theme_dark \<noteq> theme_light" "theme_light \<noteq> theme_dark" "dark \<noteq> light" "light \<noteq> dark"
  "dark \<noteq> []" "light \<noteq> []"
  by (simp_all add: theme_dark_def theme_light_def dark_def light_def ascii_def)

lemma applyTheme_body_set:
  "set (body (applyTheme mode p)) =
     (if mode = dark then insert theme_dark (set (body p)) - {theme_light}
      else insert theme_light (set (body p)) - {theme_dark})"
  by (auto simp: applyTheme_def Let_def classList_add_def classList_remove_def)

lemma applyTheme_one_class:
  "(theme_dark \<in> set (body (applyTheme mode p))) = (mode = dark)"
  "(theme_light \<in> set (body (applyTheme mode p))) = (mode \<noteq> dark)"
  using theme_consts_distinct by (auto simp: applyTheme_body_set)

lemma applyTheme_storage:
  "localStorage (applyTheme mode p) =
     (if writable (localStorage p)
      then (localStorage p)\<lparr>entries := (entries (localStorage p))(themeKey \<mapsto> mode)\<rparr>
      else localStorage p)"
  by (simp add: applyTheme_def Let_def setItem_def)

lemma applyTheme_darkToggle:
  "darkToggle p = Some h \<Longrightarrow>
   darkToggle (applyTheme mode p) = Some (if mode = dark then icon_sun else icon_moon)"
  by (simp add: applyTheme_def Let_def)

lemma toggle_click_eq:
  "darkToggle p = Some h \<Longrightarrow>
   toggle_click p = applyTheme (if theme_dark \<in> set (body p) then light else dark) p"
  by (simp add: toggle_click_def classList_contains_def Let_def)

lemma theme_fallback_eq:
  "theme_fallback p = applyTheme (if matchMedia p = Some True then dark else light) p"
  by (cases "matchMedia p") (simp_all add: theme_fallback_def Let_def)

lemma toggle_click_twice_eq:
  assumes t: "darkToggle p = Some h"
  shows "toggle_click (toggle_click p) =
     (if theme_dark \<in> set (body p) then applyTheme dark (applyTheme light p)
      else applyTheme light (applyTheme dark p))"
proof (cases "theme_dark \<in> set (body p)")
  case True
  from t True have c1: "toggle_click p = applyTheme light p"
    by (simp add: toggle_click_eq)
  from t have "darkToggle (applyTheme light p) = Some (if light = dark then icon_sun else icon_moon)"
    by (rule applyTheme_darkToggle)
  from toggle_click_eq [OF this] have "toggle_click (applyTheme light p)
      = applyTheme dark (applyTheme light p)"
    using theme_consts_distinct by (simp add: applyTheme_one_class)
  with c1 True show ?thesis by simp
next
  case False
  from t False have c1: "toggle_click p = applyTheme dark p"
    by (simp add: toggle_click_eq)
  from t have "darkToggle (applyTheme dark p) = Some (if dark = dark then icon_sun else icon_moon)"
    by (rule applyTheme_darkToggle)
  from toggle_click_eq [OF this] have "toggle_click (applyTheme dark p)
      = applyTheme light (applyTheme dark p)"
    by (simp add: applyTheme_one_class)
  with c1 False show ?thesis by simp
qed

text \<open>
  C6, as the code has it. From a body that carries exactly one of the two theme classes,
  one click on the toggle leaves the body with exactly the other theme class and sets the
  icon to match, and two clicks give back the classes the body had. After one click, when
  the storage takes the write, the stored value is \<^verbatim>\<open>dark\<close> if the body carries the
  dark class and \<^verbatim>\<open>light\<close> if not; when the storage refuses the write, the body and
  the icon change all the same and the storage is left as it was.
\<close>

theorem toggle_twice_restores:
  assumes t: "darkToggle p = Some h"
    and one: "(theme_dark \<in> set (body p)) \<noteq> (theme_light \<in> set (body p))"
  shows "set (body (toggle_click (toggle_click p))) = set (body p)
     \<and> (theme_dark \<in> set (body (toggle_click p))) = (theme_dark \<notin> set (body p))
     \<and> (theme_light \<in> set (body (toggle_click p))) = (theme_dark \<in> set (body p))
     \<and> darkToggle (toggle_click p)
         = Some (if theme_dark \<in> set (body p) then icon_moon else icon_sun)
     \<and> (writable (localStorage p) \<longrightarrow>
          entries (localStorage (toggle_click p)) themeKey =
            Some (if theme_dark \<in> set (body (toggle_click p)) then dark else light))
     \<and> (\<not> writable (localStorage p) \<longrightarrow> localStorage (toggle_click p) = localStorage p)"
proof -
  have restored: "set (body (toggle_click (toggle_click p))) = set (body p)"
    using one theme_consts_distinct
    by (auto simp: toggle_click_twice_eq [OF t] applyTheme_body_set)
  have flips: "(theme_dark \<in> set (body (toggle_click p))) = (theme_dark \<notin> set (body p))"
      "(theme_light \<in> set (body (toggle_click p))) = (theme_dark \<in> set (body p))"
    using theme_consts_distinct
    by (simp_all add: toggle_click_eq [OF t] applyTheme_one_class)
  have icon: "darkToggle (toggle_click p)
      = Some (if theme_dark \<in> set (body p) then icon_moon else icon_sun)"
    using theme_consts_distinct
    by (simp add: toggle_click_eq [OF t] applyTheme_darkToggle [OF t])
  have stored: "writable (localStorage p) \<longrightarrow>
      entries (localStorage (toggle_click p)) themeKey =
        Some (if theme_dark \<in> set (body (toggle_click p)) then dark else light)"
    using theme_consts_distinct
    by (simp add: toggle_click_eq [OF t] applyTheme_storage applyTheme_one_class)
  have refused: "\<not> writable (localStorage p) \<longrightarrow> localStorage (toggle_click p) = localStorage p"
    by (simp add: toggle_click_eq [OF t] applyTheme_storage)
  from restored flips icon stored refused show ?thesis by blast
qed

theorem toggle_twice_restores_witness:
  "darkToggle page_light = Some icon_moon
   \<and> theme_light \<in> set (body page_light) \<and> theme_dark \<notin> set (body page_light)
   \<and> set (body (toggle_click (toggle_click page_light))) = set (body page_light)
   \<and> writable (localStorage page_light)
   \<and> theme_dark \<in> set (body (toggle_click page_light))
   \<and> theme_light \<notin> set (body (toggle_click page_light))
   \<and> darkToggle (toggle_click page_light) = Some icon_sun
   \<and> entries (localStorage (toggle_click page_light)) themeKey = Some dark
   \<and> \<not> writable (localStorage page_storage_full)
   \<and> theme_dark \<in> set (body (toggle_click page_storage_full))
   \<and> darkToggle (toggle_click page_storage_full) = Some icon_sun
   \<and> localStorage (toggle_click page_storage_full) = localStorage page_storage_full"
proof -
  have t: "darkToggle page_light = Some icon_moon" by (simp add: page_light_def)
  have l: "theme_light \<in> set (body page_light)" by (simp add: page_light_def)
  have d: "theme_dark \<notin> set (body page_light)"
    by (simp add: page_light_def theme_dark_def theme_light_def ascii_def)
  from l d have one: "(theme_dark \<in> set (body page_light)) \<noteq> (theme_light \<in> set (body page_light))"
    by simp
  have w: "writable (localStorage page_light)" by (simp add: page_light_def)
  from toggle_twice_restores [OF t one] d w
  have 1: "set (body (toggle_click (toggle_click page_light))) = set (body page_light)"
    and 2: "theme_dark \<in> set (body (toggle_click page_light))"
    and 3: "theme_light \<notin> set (body (toggle_click page_light))"
    and 4: "darkToggle (toggle_click page_light) = Some icon_sun"
    and 5: "entries (localStorage (toggle_click page_light)) themeKey = Some dark"
    by simp_all
  have t': "darkToggle page_storage_full = Some icon_moon" by (simp add: page_storage_full_def)
  have d': "theme_dark \<notin> set (body page_storage_full)"
    by (simp add: page_storage_full_def theme_dark_def theme_light_def ascii_def)
  have l': "theme_light \<in> set (body page_storage_full)" by (simp add: page_storage_full_def)
  from l' d' have one': "(theme_dark \<in> set (body page_storage_full))
      \<noteq> (theme_light \<in> set (body page_storage_full))" by simp
  have w': "\<not> writable (localStorage page_storage_full)" by (simp add: page_storage_full_def)
  from toggle_twice_restores [OF t' one'] d' w'
  have 6: "theme_dark \<in> set (body (toggle_click page_storage_full))"
    and 7: "darkToggle (toggle_click page_storage_full) = Some icon_sun"
    and 8: "localStorage (toggle_click page_storage_full) = localStorage page_storage_full"
    by simp_all
  from t l d 1 w 2 3 4 5 w' 6 7 8 show ?thesis by blast
qed

text \<open>
  C6 as stated fails when the storage refuses the write: \<^verbatim>\<open>setItem\<close> throws, the
  \<^verbatim>\<open>catch\<close> ignores it, and after the click the body is dark while the stored value
  still says \<^verbatim>\<open>light\<close>.
\<close>

theorem toggle_storage_full_counterexample:
  "darkToggle page_storage_full = Some icon_moon
   \<and> theme_dark \<in> set (body (toggle_click page_storage_full))
   \<and> entries (localStorage (toggle_click page_storage_full)) themeKey = Some light
   \<and> light \<noteq> dark"
  by (simp add: page_storage_full_def toggle_click_def classList_contains_def Let_def
      applyTheme_def classList_add_def classList_remove_def setItem_def
      theme_dark_def theme_light_def dark_def light_def ascii_def)

lemma theme_init_stored:
  "readable (localStorage p) \<Longrightarrow> entries (localStorage p) themeKey = Some v \<Longrightarrow> v \<noteq> [] \<Longrightarrow>
   theme_init p = applyTheme v p"
  by (simp add: theme_init_def getItem_def)

lemma theme_init_no_stored:
  assumes "\<not> (readable (localStorage p) \<and> (\<exists>v. entries (localStorage p) themeKey = Some v \<and> v \<noteq> []))"
  shows "theme_init p = theme_fallback p"
proof (cases "readable (localStorage p)")
  case False
  then show ?thesis by (simp add: theme_init_def getItem_def)
next
  case True
  with assms show ?thesis
    by (cases "entries (localStorage p) themeKey") (simp_all add: theme_init_def getItem_def)
qed

text \<open>
  C7, as the code has it. If the storage can be read and holds a value that is not the
  empty string, that value is applied; otherwise (no value, an empty value, or a storage
  that throws), dark is applied if \<^verbatim>\<open>matchMedia\<close> exists and reports a preference for
  dark, and light is applied if not.
\<close>

theorem theme_init_order:
  "(readable (localStorage p) \<and> entries (localStorage p) themeKey = Some v \<and> v \<noteq> []
      \<longrightarrow> theme_init p = applyTheme v p)
   \<and> (\<not> (readable (localStorage p) \<and> (\<exists>w. entries (localStorage p) themeKey = Some w \<and> w \<noteq> []))
        \<and> matchMedia p = Some True
      \<longrightarrow> theme_init p = applyTheme dark p)
   \<and> (\<not> (readable (localStorage p) \<and> (\<exists>w. entries (localStorage p) themeKey = Some w \<and> w \<noteq> []))
        \<and> matchMedia p \<noteq> Some True
      \<longrightarrow> theme_init p = applyTheme light p)"
  by (simp add: theme_init_stored theme_init_no_stored theme_fallback_eq)

theorem theme_init_order_witness:
  "readable (localStorage (page_stored light))
   \<and> entries (localStorage (page_stored light)) themeKey = Some light \<and> light \<noteq> []
   \<and> theme_init (page_stored light) = applyTheme light (page_stored light)
   \<and> entries (localStorage (page_fresh (Some True))) themeKey = None
   \<and> theme_init (page_fresh (Some True)) = applyTheme dark (page_fresh (Some True))
   \<and> theme_init (page_fresh None) = applyTheme light (page_fresh None)"
proof -
  have a: "readable (localStorage (page_stored light))
      \<and> entries (localStorage (page_stored light)) themeKey = Some light \<and> light \<noteq> []"
    by (simp add: page_stored_def light_def ascii_def)
  have b: "entries (localStorage (page_fresh m)) themeKey = None" for m
    by (simp add: page_fresh_def)
  have c: "matchMedia (page_fresh m) = m" for m
    by (simp add: page_fresh_def)
  from theme_init_order [of "page_stored light" light] a
  have 1: "theme_init (page_stored light) = applyTheme light (page_stored light)" by simp
  from theme_init_order [of "page_fresh (Some True)"] b c
  have 2: "theme_init (page_fresh (Some True)) = applyTheme dark (page_fresh (Some True))" by simp
  from theme_init_order [of "page_fresh None"] b c
  have 3: "theme_init (page_fresh None) = applyTheme light (page_fresh None)" by simp
  from a b 1 2 3 show ?thesis by simp
qed

text \<open>
  C7 as stated fails for a stored value that is the empty string: it exists in the
  storage and is not null, but \<^verbatim>\<open>if (stored)\<close> is false for it, so the system preference
  decides. On a system that prefers dark the page becomes dark, where applying the stored
  value would make it light.
\<close>

theorem theme_init_empty_stored_counterexample:
  "readable (localStorage (page_stored []))
   \<and> entries (localStorage (page_stored [])) themeKey = Some []
   \<and> body (theme_init (page_stored [])) = [theme_dark]
   \<and> body (applyTheme [] (page_stored [])) = [theme_light]
   \<and> theme_dark \<noteq> theme_light"
  by (simp add: page_stored_def theme_init_def theme_fallback_def getItem_def Let_def
      applyTheme_def classList_add_def classList_remove_def
      theme_dark_def theme_light_def dark_def ascii_def)

text \<open>
  C10, as the code has it. For every string \<open>mode\<close>, after \<^verbatim>\<open>applyTheme(mode)\<close> the
  body carries the dark class if and only if \<open>mode\<close> is \<^verbatim>\<open>dark\<close> and the light class
  if and only if it is not; when the storage takes the write, \<open>mode\<close> itself is stored.
  A stored value that is read, is not the empty string and is neither \<^verbatim>\<open>light\<close> nor
  \<^verbatim>\<open>dark\<close> initialises the page to the light theme and is the stored value afterwards.
\<close>

theorem applyTheme_exactly_one_class:
  "(theme_dark \<in> set (body (applyTheme mode p))) = (mode = dark)
   \<and> (theme_light \<in> set (body (applyTheme mode p))) = (mode \<noteq> dark)
   \<and> (writable (localStorage p) \<longrightarrow>
        entries (localStorage (applyTheme mode p)) themeKey = Some mode)
   \<and> (readable (localStorage p) \<and> entries (localStorage p) themeKey = Some v
        \<and> v \<noteq> [] \<and> v \<noteq> light \<and> v \<noteq> dark \<longrightarrow>
        theme_light \<in> set (body (theme_init p)) \<and> theme_dark \<notin> set (body (theme_init p))
        \<and> entries (localStorage (theme_init p)) themeKey = Some v)"
  by (simp add: applyTheme_one_class applyTheme_storage theme_init_stored)

theorem applyTheme_exactly_one_class_witness:
  "theme_dark \<notin> set (body (applyTheme (ascii ''blue'') (page_stored (ascii ''blue''))))
   \<and> theme_light \<in> set (body (applyTheme (ascii ''blue'') (page_stored (ascii ''blue''))))
   \<and> writable (localStorage (page_stored (ascii ''blue'')))
   \<and> entries (localStorage (applyTheme (ascii ''blue'') (page_stored (ascii ''blue'')))) themeKey
       = Some (ascii ''blue'')
   \<and> readable (localStorage (page_stored (ascii ''blue'')))
   \<and> entries (localStorage (page_stored (ascii ''blue''))) themeKey = Some (ascii ''blue'')
   \<and> ascii ''blue'' \<noteq> [] \<and> ascii ''blue'' \<noteq> light \<and> ascii ''blue'' \<noteq> dark
   \<and> theme_light \<in> set (body (theme_init (page_stored (ascii ''blue''))))
   \<and> theme_dark \<notin> set (body (theme_init (page_stored (ascii ''blue''))))
   \<and> entries (localStorage (theme_init (page_stored (ascii ''blue'')))) themeKey
       = Some (ascii ''blue'')"
proof -
  let ?v = "ascii ''blue''"
  have a: "writable (localStorage (page_stored ?v)) \<and> readable (localStorage (page_stored ?v))
      \<and> entries (localStorage (page_stored ?v)) themeKey = Some ?v"
    by (simp add: page_stored_def)
  have b: "?v \<noteq> [] \<and> ?v \<noteq> light \<and> ?v \<noteq> dark"
    by (simp add: light_def dark_def ascii_def)
  from applyTheme_exactly_one_class [of ?v "page_stored ?v" ?v] a b show ?thesis by simp
qed

text \<open>
  C10 as stated fails for the empty string, which is a stored value outside
  \<^verbatim>\<open>light\<close> and \<^verbatim>\<open>dark\<close>: on a system that prefers dark the page is initialised to the
  dark theme, and \<^verbatim>\<open>dark\<close> is written over the stored value.
\<close>

theorem init_empty_string_counterexample:
  "entries (localStorage (page_stored [])) themeKey = Some []
   \<and> [] \<noteq> light \<and> [] \<noteq> dark
   \<and> theme_dark \<in> set (body (theme_init (page_stored [])))
   \<and> theme_light \<notin> set (body (theme_init (page_stored [])))
   \<and> entries (localStorage (theme_init (page_stored []))) themeKey = Some dark"
  by (simp add: page_stored_def theme_init_def theme_fallback_def getItem_def setItem_def
      Let_def applyTheme_def classList_add_def classList_remove_def
      theme_dark_def theme_light_def dark_def light_def ascii_def)

section \<open>Properties of the email check\<close>

lemma re_match_Lit:
  "re_match (Lit a # r) s = (\<exists>b. s = a # b \<and> re_match r b)"
  by (cases s) auto

lemma re_match_PlusNot:
  "re_match (PlusNot cls # r) s =
     (\<exists>a b. s = a @ b \<and> a \<noteq> [] \<and> \<not> list_ex cls a \<and> re_match r b)"
proof (induction s)
  case Nil
  then show ?case by simp
next
  case (Cons c cs)
  show ?case
  proof
    assume m: "re_match (PlusNot cls # r) (c # cs)"
    then have c: "\<not> cls c" by simp
    from m have "re_match (PlusNot cls # r) cs \<or> re_match r cs" by simp
    then show "\<exists>a b. c # cs = a @ b \<and> a \<noteq> [] \<and> \<not> list_ex cls a \<and> re_match r b"
    proof
      assume "re_match (PlusNot cls # r) cs"
      with Cons.IH obtain a b where "cs = a @ b" "\<not> list_ex cls a" "re_match r b" by auto
      with c have "c # cs = (c # a) @ b \<and> c # a \<noteq> [] \<and> \<not> list_ex cls (c # a) \<and> re_match r b"
        by simp
      then show ?thesis by blast
    next
      assume "re_match r cs"
      with c have "c # cs = [c] @ cs \<and> [c] \<noteq> [] \<and> \<not> list_ex cls [c] \<and> re_match r cs"
        by simp
      then show ?thesis by blast
    qed
  next
    assume "\<exists>a b. c # cs = a @ b \<and> a \<noteq> [] \<and> \<not> list_ex cls a \<and> re_match r b"
    then obtain a b where ab: "c # cs = a @ b" "a \<noteq> []" "\<not> list_ex cls a" "re_match r b"
      by blast
    from ab(1,2) obtain a' where a: "a = c # a'" "cs = a' @ b"
      by (cases a) auto
    show "re_match (PlusNot cls # r) (c # cs)"
    proof (cases "a' = []")
      case True
      with a ab show ?thesis by simp
    next
      case False
      with a ab have "\<exists>x y. cs = x @ y \<and> x \<noteq> [] \<and> \<not> list_ex cls x \<and> re_match r y"
        by auto
      with Cons.IH a ab show ?thesis by simp
    qed
  qed
qed

lemma email_re_decompose:
  "re_match email_re s =
     (\<exists>l d t. s = l @ at_sign # d @ dot # t \<and> l \<noteq> [] \<and> d \<noteq> [] \<and> t \<noteq> []
        \<and> \<not> list_ex space_or_at l \<and> \<not> list_ex space_or_at d \<and> \<not> list_ex space_or_at t)"
  (is "?L = ?R")
proof
  assume ?L
  then obtain l b1 where 1: "s = l @ b1" "l \<noteq> []" "\<not> list_ex space_or_at l"
      "re_match [Lit at_sign, PlusNot space_or_at, Lit dot, PlusNot space_or_at] b1"
    unfolding email_re_def re_match_PlusNot [of _ "Lit at_sign # _"] by blast
  from 1(4) obtain b2 where 2: "b1 = at_sign # b2"
      "re_match [PlusNot space_or_at, Lit dot, PlusNot space_or_at] b2"
    unfolding re_match_Lit by blast
  from 2(2) obtain d b3 where 3: "b2 = d @ b3" "d \<noteq> []" "\<not> list_ex space_or_at d"
      "re_match [Lit dot, PlusNot space_or_at] b3"
    unfolding re_match_PlusNot [of _ "Lit dot # _"] by blast
  from 3(4) obtain b4 where 4: "b3 = dot # b4" "re_match [PlusNot space_or_at] b4"
    unfolding re_match_Lit by blast
  from 4(2) obtain t b5 where 5: "b4 = t @ b5" "t \<noteq> []" "\<not> list_ex space_or_at t" "b5 = []"
    unfolding re_match_PlusNot [of _ "[]"] by auto
  from 1 2 3 4 5 show ?R by auto
next
  assume ?R
  then obtain l d t where h: "s = l @ at_sign # d @ dot # t" "l \<noteq> []" "d \<noteq> []" "t \<noteq> []"
      "\<not> list_ex space_or_at l" "\<not> list_ex space_or_at d" "\<not> list_ex space_or_at t"
    by blast
  from h(4,7) have 5: "re_match [PlusNot space_or_at] t"
    unfolding re_match_PlusNot [of _ "[]"] by simp
  then have 4: "re_match [Lit dot, PlusNot space_or_at] (dot # t)" by simp
  with h(3,6) have 3: "re_match [PlusNot space_or_at, Lit dot, PlusNot space_or_at] (d @ dot # t)"
    unfolding re_match_PlusNot [of _ "Lit dot # _"] by blast
  then have 2: "re_match [Lit at_sign, PlusNot space_or_at, Lit dot, PlusNot space_or_at]
      (at_sign # d @ dot # t)" by simp
  with h(2,5) have "re_match email_re (l @ at_sign # d @ dot # t)"
    unfolding email_re_def re_match_PlusNot [of _ "Lit at_sign # _"] by blast
  with h(1) show ?L by simp
qed

lemma not_space_at_dot [simp]: "\<not> is_space at_sign" "\<not> is_space dot" "at_sign \<noteq> dot" "dot \<noteq> at_sign"
  by (simp_all add: is_space_def at_sign_def dot_def)

lemma email_shape_of_parts:
  assumes s: "s = l @ at_sign # d @ dot # t" and ne: "l \<noteq> []" "d \<noteq> []" "t \<noteq> []"
    and cl: "\<not> list_ex space_or_at l" "\<not> list_ex space_or_at d" "\<not> list_ex space_or_at t"
  shows "email_shape s"
proof -
  from cl have nl: "\<forall>c\<in>set l. c \<noteq> at_sign \<and> \<not> is_space c"
    and nd: "\<forall>c\<in>set d. c \<noteq> at_sign \<and> \<not> is_space c"
    and nt: "\<forall>c\<in>set t. c \<noteq> at_sign \<and> \<not> is_space c"
    by (auto simp: list_ex_iff space_or_at_def)
  from nl nd nt have cnt: "count_list l at_sign = 0" "count_list d at_sign = 0" "count_list t at_sign = 0"
    by (auto simp: count_list_0_iff)
  have 1: "count_list s at_sign = 1" using cnt by (simp add: s)
  have tw: "takeWhile (\<lambda>c. c \<noteq> at_sign) s = l"
    using nl by (simp add: s takeWhile_append2)
  have dw: "dropWhile (\<lambda>c. c \<noteq> at_sign) s = at_sign # d @ dot # t"
    using nl by (simp add: s dropWhile_append2)
  then have af: "after_at s = d @ dot # t" by (simp add: after_at_def)
  from ne have "butlast (tl (d @ dot # t)) = tl d @ dot # butlast t"
    by (cases d) (simp_all add: butlast_append)
  then have 4: "dot \<in> set (butlast (tl (after_at s)))" by (simp add: af)
  have 5: "\<not> list_ex is_space s" using nl nd nt by (auto simp: s list_ex_iff)
  from 1 tw ne af 4 5 show ?thesis by (simp add: email_shape_def)
qed

lemma email_shape_parts:
  assumes "email_shape s"
  shows "\<exists>l d t. s = l @ at_sign # d @ dot # t \<and> l \<noteq> [] \<and> d \<noteq> [] \<and> t \<noteq> []
        \<and> \<not> list_ex space_or_at l \<and> \<not> list_ex space_or_at d \<and> \<not> list_ex space_or_at t"
proof -
  let ?P = "\<lambda>c. c \<noteq> at_sign"
  let ?l = "takeWhile ?P s" and ?a = "after_at s"
  from assms have cnt: "count_list s at_sign = 1" and l: "?l \<noteq> []" and a: "?a \<noteq> []"
    and dt: "dot \<in> set (butlast (tl ?a))" and sp: "\<not> list_ex is_space s"
    by (simp_all add: email_shape_def)
  from cnt have "at_sign \<in> set s" using count_list_0_iff [of s at_sign] by auto
  then have dne: "dropWhile ?P s \<noteq> []" by (auto simp: dropWhile_eq_Nil_conv)
  then have "\<not> ?P (hd (dropWhile ?P s))" by (rule hd_dropWhile)
  with dne have dw: "dropWhile ?P s = at_sign # ?a"
    by (cases "dropWhile ?P s") (simp_all add: after_at_def)
  have s: "s = ?l @ at_sign # ?a"
    using takeWhile_dropWhile_id [of ?P s] dw by simp
  have "count_list s at_sign = count_list ?l at_sign + 1 + count_list ?a at_sign"
    by (subst s) simp
  with cnt have "count_list ?a at_sign = 0" by simp
  then have na: "at_sign \<notin> set ?a" by (simp add: count_list_0_iff)
  have nl: "at_sign \<notin> set ?l" by (auto dest: set_takeWhileD)
  from dt obtain x y where xy: "butlast (tl ?a) = x @ dot # y" by (auto dest: split_list)
  then have "tl ?a \<noteq> []" by auto
  then have "tl ?a = butlast (tl ?a) @ [last (tl ?a)]" by simp
  with xy have tla: "tl ?a = x @ dot # (y @ [last (tl ?a)])" by simp
  from a have "?a = hd ?a # tl ?a" by simp
  with tla have "?a = (hd ?a # x) @ dot # (y @ [last (tl ?a)])" by simp
  then obtain d t where a': "?a = d @ dot # t" and d: "d \<noteq> []" and t: "t \<noteq> []"
    by blast
  from s a' have s': "s = ?l @ at_sign # d @ dot # t" by simp
  from sp have nsp: "\<forall>c\<in>set s. \<not> is_space c" by (simp add: list_ex_iff)
  from na a' have nd: "at_sign \<notin> set d" and nt: "at_sign \<notin> set t" by simp_all
  have sl: "set ?l \<subseteq> set s" by (auto dest: set_takeWhileD)
  have sd: "set d \<subseteq> set s" and st: "set t \<subseteq> set s" by (subst s', auto)+
  have "\<not> list_ex space_or_at ?l"
    using nsp nl sl unfolding list_ex_iff space_or_at_def by blast
  moreover have "\<not> list_ex space_or_at d"
    using nsp nd sd unfolding list_ex_iff space_or_at_def by blast
  moreover have "\<not> list_ex space_or_at t"
    using nsp nt st unfolding list_ex_iff space_or_at_def by blast
  ultimately show ?thesis using s' l d t by blast
qed

lemma re_match_email_shape: "re_match email_re s = email_shape s"
  unfolding email_re_decompose
  using email_shape_parts [of s] email_shape_of_parts [of s] by blast

subsection \<open>The case mapping does not change the verdict\<close>

lemma PlusNot_piece:
  assumes cls: "\<And>c. cls c \<Longrightarrow> special c"
    and blocked: "\<And>d ds. \<not> special d \<Longrightarrow> \<not> re_match r (d # ds)"
  shows "ds \<noteq> [] \<Longrightarrow> \<not> list_ex special ds \<Longrightarrow>
     re_match (PlusNot cls # r) (ds @ x) = (re_match (PlusNot cls # r) x \<or> re_match r x)"
proof (induction ds)
  case Nil
  then show ?case by simp
next
  case (Cons d ds)
  from Cons.prems have d: "\<not> special d" and rest: "\<not> list_ex special ds" by simp_all
  from d cls have nc: "\<not> cls d" by blast
  show ?case
  proof (cases "ds = []")
    case True
    with nc show ?thesis by simp
  next
    case False
    then obtain e es where e: "ds = e # es" by (cases ds) auto
    with rest have "\<not> special e" by simp
    then have "\<not> re_match r (e # es @ x)" by (rule blocked)
    with e have "\<not> re_match r (ds @ x)" by simp
    with nc Cons.IH [OF False rest] show ?thesis by simp
  qed
qed

lemma Lit_invariant:
  assumes a: "special a"
    and r: "\<And>s ps. list_all2 piece_ok s ps \<Longrightarrow> re_match r (concat ps) = re_match r s"
    and sp: "list_all2 piece_ok s ps"
  shows "re_match (Lit a # r) (concat ps) = re_match (Lit a # r) s"
proof (cases s)
  case Nil
  with sp show ?thesis by simp
next
  case (Cons c cs)
  with sp obtain p ps' where ps: "ps = p # ps'" and p: "piece_ok c p"
    and rest: "list_all2 piece_ok cs ps'"
    by (auto simp: list_all2_Cons1)
  show ?thesis
  proof (cases "special c")
    case True
    with p have "p = [c]" by (simp add: piece_ok_def)
    with Cons ps r [OF rest] show ?thesis by simp
  next
    case False
    with p obtain d ds where pd: "p = d # ds" and d: "\<not> special d"
      by (cases p) (auto simp: piece_ok_def)
    from d a have "d \<noteq> a" by auto
    moreover from False a have "c \<noteq> a" by auto
    ultimately show ?thesis using Cons ps pd by simp
  qed
qed

lemma PlusNot_invariant:
  assumes cls: "\<And>c. cls c \<Longrightarrow> special c"
    and blocked: "\<And>d ds. \<not> special d \<Longrightarrow> \<not> re_match r (d # ds)"
    and r: "\<And>s ps. list_all2 piece_ok s ps \<Longrightarrow> re_match r (concat ps) = re_match r s"
  shows "list_all2 piece_ok s ps \<Longrightarrow>
     re_match (PlusNot cls # r) (concat ps) = re_match (PlusNot cls # r) s"
proof (induction rule: list_all2_induct)
  case Nil
  then show ?case by simp
next
  case (Cons c cs p ps')
  show ?case
  proof (cases "special c")
    case True
    with Cons.hyps have "p = [c]" by (simp add: piece_ok_def)
    with Cons.IH r [OF Cons.hyps(2)] show ?thesis by simp
  next
    case False
    with Cons.hyps have p: "p \<noteq> []" "\<not> list_ex special p" by (simp_all add: piece_ok_def)
    from False cls have "\<not> cls c" by blast
    with PlusNot_piece [of cls r p "concat ps'", OF cls blocked p] Cons.IH r [OF Cons.hyps(2)]
    show ?thesis by simp
  qed
qed

lemma concat_pieces_Nil:
  "list_all2 piece_ok s ps \<Longrightarrow> (\<forall>p\<in>set ps. p = []) = (s = [])"
  by (cases s) (auto simp: list_all2_Cons1 piece_ok_def)

lemma special_simps [simp]: "special at_sign" "special dot"
  by (simp_all add: special_def)

lemma space_or_at_special: "space_or_at c \<Longrightarrow> special c"
  by (auto simp: space_or_at_def special_def)

lemma email_re_invariant:
  assumes "list_all2 piece_ok s ps"
  shows "re_match email_re (concat ps) = re_match email_re s"
proof -
  let ?P = "PlusNot space_or_at"
  have 5: "re_match [?P] (concat ps) = re_match [?P] s" if "list_all2 piece_ok s ps" for s ps
    using that by (intro PlusNot_invariant space_or_at_special) (simp_all add: concat_pieces_Nil)
  have 4: "re_match [Lit dot, ?P] (concat ps) = re_match [Lit dot, ?P] s"
    if "list_all2 piece_ok s ps" for s ps
    using that by (intro Lit_invariant 5) simp_all
  have 3: "re_match [?P, Lit dot, ?P] (concat ps) = re_match [?P, Lit dot, ?P] s"
    if "list_all2 piece_ok s ps" for s ps
    using that by (intro PlusNot_invariant space_or_at_special 4) auto
  have 2: "re_match [Lit at_sign, ?P, Lit dot, ?P] (concat ps) = re_match [Lit at_sign, ?P, Lit dot, ?P] s"
    if "list_all2 piece_ok s ps" for s ps
    using that by (intro Lit_invariant 3) simp_all
  show ?thesis
    unfolding email_re_def using assms
    by (intro PlusNot_invariant space_or_at_special 2) auto
qed

lemma validateEmail_shape:
  assumes "case_mapping f"
  shows "validateEmail f s = email_shape s"
proof -
  from assms obtain ps where "list_all2 piece_ok s ps" "f s = concat ps"
    unfolding case_mapping_def by blast
  then show ?thesis
    using email_re_invariant [of s ps] by (simp add: validateEmail_def re_match_email_shape)
qed

lemma ascii_lower_range:
  fixes c :: "16 word"
  assumes "0x41 \<le> c" and "c \<le> 0x5A"
  shows "0x61 \<le> c + 0x20 \<and> c + 0x20 \<le> 0x7A"
proof -
  from assms have "65 \<le> unat c" and "unat c \<le> 90" by (simp_all add: word_le_nat_alt)
  moreover from this have "unat (c + 0x20) = unat c + 32" by (simp add: unat_word_ariths)
  ultimately show ?thesis by (simp add: word_le_nat_alt)
qed

lemma not_special_letter:
  fixes x :: "16 word"
  assumes "0x61 \<le> x \<and> x \<le> 0x7A"
  shows "\<not> special x"
  using assms unfolding special_def is_space_def at_sign_def dot_def by auto

lemma case_mapping_ascii_lower: "case_mapping ascii_lower"
  unfolding case_mapping_def
proof
  fix s
  let ?lc = "\<lambda>c::16 word. if 0x41 \<le> c \<and> c \<le> 0x5A then c + 0x20 else c"
  let ?ps = "map (\<lambda>c. [?lc c]) s"
  have ok: "piece_ok c [?lc c]" for c
  proof (cases "0x41 \<le> c \<and> c \<le> 0x5A")
    case True
    then have "\<not> special (c + 0x20)" by (intro not_special_letter ascii_lower_range) simp_all
    moreover from True have "\<not> special c"
      unfolding special_def is_space_def at_sign_def dot_def by auto
    ultimately show ?thesis using True by (simp add: piece_ok_def)
  next
    case False
    then have "(if 0x41 \<le> c \<and> c \<le> 0x5A then c + 0x20 else c) = c" by simp
    then show ?thesis by (simp only: piece_ok_def) simp
  qed
  have "list_all2 piece_ok s ?ps"
    by (simp add: list_all2_map2 list_all2_same ok)
  moreover have "ascii_lower s = concat ?ps"
    by (simp add: ascii_lower_def concat_map_singleton)
  ultimately show "\<exists>ps. list_all2 piece_ok s ps \<and> ascii_lower s = concat ps" by blast
qed

text \<open>
  C5, as the code has it. Under a case mapping, \<^verbatim>\<open>validateEmail\<close> accepts a string if
  and only if it contains exactly one \<^verbatim>\<open>@\<close> with text on both sides, a \<^verbatim>\<open>.\<close> after the
  \<^verbatim>\<open>@\<close> with text between the \<^verbatim>\<open>@\<close> and it and text after it, and no white space;
  a string without \<^verbatim>\<open>@\<close> is rejected.
\<close>

theorem validateEmail_accepts_shape:
  assumes "case_mapping toLowerCase"
  shows "validateEmail toLowerCase s = email_shape s
     \<and> (at_sign \<notin> set s \<longrightarrow> \<not> validateEmail toLowerCase s)"
proof -
  from assms have e: "validateEmail toLowerCase s = email_shape s" by (rule validateEmail_shape)
  have "\<not> email_shape s" if "at_sign \<notin> set s"
    using that by (simp add: email_shape_def count_list_0_iff [THEN iffD2])
  with e show ?thesis by simp
qed

theorem validateEmail_accepts_shape_witness:
  "case_mapping ascii_lower
   \<and> email_shape (ascii ''Ann@Example.org'')
   \<and> validateEmail ascii_lower (ascii ''Ann@Example.org'')
   \<and> at_sign \<notin> set (ascii ''ann.example.org'')
   \<and> \<not> validateEmail ascii_lower (ascii ''ann.example.org'')"
proof -
  have s: "email_shape (ascii ''Ann@Example.org'')"
    by (simp add: email_shape_def after_at_def ascii_def at_sign_def dot_def is_space_def)
  have n: "at_sign \<notin> set (ascii ''ann.example.org'')"
    by (simp add: ascii_def at_sign_def)
  note cm = case_mapping_ascii_lower
  from validateEmail_accepts_shape [OF cm, of "ascii ''Ann@Example.org''"] s
  have 1: "validateEmail ascii_lower (ascii ''Ann@Example.org'')" by blast
  from validateEmail_accepts_shape [OF cm, of "ascii ''ann.example.org''"] n
  have 2: "\<not> validateEmail ascii_lower (ascii ''ann.example.org'')" by blast
  from cm s 1 n 2 show ?thesis by blast
qed

text \<open>
  C5 as stated fails for \<^verbatim>\<open>a@.b\<close>: one \<^verbatim>\<open>@\<close> with text on both sides, a \<^verbatim>\<open>.\<close>
  after the \<^verbatim>\<open>@\<close> with text after it, no white space; but nothing stands between the
  \<^verbatim>\<open>@\<close> and the \<^verbatim>\<open>.\<close>, and the expression rejects it.
\<close>

theorem validateEmail_dot_after_at_counterexample:
  "spec_email_shape (ascii ''a@.b'') \<and> \<not> validateEmail ascii_lower (ascii ''a@.b'')"
  by (simp add: spec_email_shape_def after_at_def validateEmail_def ascii_lower_def email_re_def
      space_or_at_def ascii_def at_sign_def dot_def is_space_def)

section \<open>Properties of the contact form\<close>

lemma msgs_distinct: "distinct [msg_name, msg_email, msg_length, msg_sending, msg_thanks]"
  by (simp add: msg_name_def msg_email_def msg_length_def msg_sending_def msg_thanks_def ascii_def)

lemma response_eq: "(r::response)\<lparr>color := c, textContent := t\<rparr> = \<lparr>textContent = t, color = c\<rparr>"
  by (cases r) simp

lemma submit_name_empty:
  "formResponse p = Some r \<Longrightarrow> field_value (f_name (form p)) = [] \<Longrightarrow>
   submit lc p = p\<lparr>formResponse := Some \<lparr>textContent = msg_name, color = error_color\<rparr>\<rparr>"
  by (simp add: submit_def showFormError_def Let_def response_eq)

lemma submit_email_invalid:
  "formResponse p = Some r \<Longrightarrow> field_value (f_name (form p)) \<noteq> [] \<Longrightarrow>
   \<not> validateEmail lc (field_value (f_email (form p))) \<Longrightarrow>
   submit lc p = p\<lparr>formResponse := Some \<lparr>textContent = msg_email, color = error_color\<rparr>\<rparr>"
  by (simp add: submit_def showFormError_def Let_def response_eq)

lemma submit_message_short:
  "formResponse p = Some r \<Longrightarrow> field_value (f_name (form p)) \<noteq> [] \<Longrightarrow>
   validateEmail lc (field_value (f_email (form p))) \<Longrightarrow>
   length (field_value (f_message (form p))) < 10 \<Longrightarrow>
   submit lc p = p\<lparr>formResponse := Some \<lparr>textContent = msg_length, color = error_color\<rparr>\<rparr>"
  by (auto simp: submit_def showFormError_def Let_def response_eq)

lemma submit_valid:
  "formResponse p = Some r \<Longrightarrow> field_value (f_name (form p)) \<noteq> [] \<Longrightarrow>
   validateEmail lc (field_value (f_email (form p))) \<Longrightarrow>
   10 \<le> length (field_value (f_message (form p))) \<Longrightarrow>
   submit lc p = p\<lparr>formResponse :=
       Some \<lparr>textContent = msg_sending,
             color = (if accent p \<noteq> [] then accent p else ascii ''#0b77d1'')\<rparr>,
     timeouts := timeouts p @ [(900, ConfirmSend)]\<rparr>"
  by (auto simp: submit_def Let_def response_eq)

lemma trim_Nil [simp]: "trim [] = []"
  by (simp add: trim_def)

lemma field_value_Some: "field_value (Some c) = trim (ctl_value c)"
  by (simp add: field_value_def)

text \<open>
  C3. Where the response element exists, the listener reports the message of the first
  rule that fails, in the order name, email, message length, and nothing else: with an
  empty name the name message is shown whatever the email and message controls hold; with
  a name and an email that fails the check the email message is shown whatever the
  message control holds; with a name, a valid email and a short message the length
  message is shown. The three messages differ.
\<close>

theorem submit_reports_first_failure:
  assumes "formResponse p = Some r"
  shows "(field_value (f_name (form p)) = [] \<longrightarrow>
          formResponse (submit lc (p\<lparr>form := (form p)\<lparr>f_email := e, f_message := m\<rparr>\<rparr>))
            = Some \<lparr>textContent = msg_name, color = error_color\<rparr>)
     \<and> (field_value (f_name (form p)) \<noteq> [] \<and> \<not> validateEmail lc (field_value (f_email (form p))) \<longrightarrow>
          formResponse (submit lc (p\<lparr>form := (form p)\<lparr>f_message := m\<rparr>\<rparr>))
            = Some \<lparr>textContent = msg_email, color = error_color\<rparr>)
     \<and> (field_value (f_name (form p)) \<noteq> [] \<and> validateEmail lc (field_value (f_email (form p)))
          \<and> length (field_value (f_message (form p))) < 10 \<longrightarrow>
          formResponse (submit lc p) = Some \<lparr>textContent = msg_length, color = error_color\<rparr>)
     \<and> distinct [msg_name, msg_email, msg_length]"
proof -
  let ?p1 = "p\<lparr>form := (form p)\<lparr>f_email := e, f_message := m\<rparr>\<rparr>"
  let ?p2 = "p\<lparr>form := (form p)\<lparr>f_message := m\<rparr>\<rparr>"
  from assms have r1: "formResponse ?p1 = Some r" and r2: "formResponse ?p2 = Some r" by simp_all
  have 1: "formResponse (submit lc ?p1) = Some \<lparr>textContent = msg_name, color = error_color\<rparr>"
    if "field_value (f_name (form p)) = []"
    using that by (simp add: submit_name_empty [OF r1])
  have 2: "formResponse (submit lc ?p2) = Some \<lparr>textContent = msg_email, color = error_color\<rparr>"
    if "field_value (f_name (form p)) \<noteq> []" "\<not> validateEmail lc (field_value (f_email (form p)))"
    using that by (simp add: submit_email_invalid [OF r2])
  have 3: "formResponse (submit lc p) = Some \<lparr>textContent = msg_length, color = error_color\<rparr>"
    if "field_value (f_name (form p)) \<noteq> []" "validateEmail lc (field_value (f_email (form p)))"
      "length (field_value (f_message (form p))) < 10"
    using that by (simp add: submit_message_short [OF assms])
  from msgs_distinct have 4: "distinct [msg_name, msg_email, msg_length]" by simp
  from 1 2 3 4 show ?thesis by blast
qed

lemma page_form_simps [simp]:
  "formResponse (page_form n e m) = Some \<lparr>textContent = [], color = []\<rparr>"
  "f_name (form (page_form n e m)) = Some \<lparr>ctl_value = n, ctl_default = []\<rparr>"
  "f_email (form (page_form n e m)) = Some \<lparr>ctl_value = e, ctl_default = []\<rparr>"
  "f_message (form (page_form n e m)) = Some \<lparr>ctl_value = m, ctl_default = []\<rparr>"
  "timeouts (page_form n e m) = []"
  "accent (page_form n e m) = []"
  by (simp_all add: page_form_def)

lemma example_fields:
  "field_value (Some \<lparr>ctl_value = ascii ''  '', ctl_default = []\<rparr>) = []"
  "field_value (Some \<lparr>ctl_value = ascii '' Ann '', ctl_default = []\<rparr>) = ascii ''Ann''"
  "field_value (Some \<lparr>ctl_value = ascii ''ann.example.org'', ctl_default = []\<rparr>)
     = ascii ''ann.example.org''"
  "field_value (Some \<lparr>ctl_value = ascii ''ann@example.org'', ctl_default = []\<rparr>)
     = ascii ''ann@example.org''"
  "field_value (Some \<lparr>ctl_value = ascii '' Too short '', ctl_default = []\<rparr>)
     = ascii ''Too short''"
  "trim (ascii '' Too short '') = ascii ''Too short''"
  "trim (ascii ''Just right'') = ascii ''Just right''"
  "field_value (Some \<lparr>ctl_value = ascii ''Just right'', ctl_default = []\<rparr>)
     = ascii ''Just right''"
  by (simp_all add: field_value_def trim_def is_space_def ascii_def)

lemma example_emails:
  "\<not> validateEmail ascii_lower (ascii ''ann.example.org'')"
  "validateEmail ascii_lower (ascii ''ann@example.org'')"
  by (simp_all add: validateEmail_shape [OF case_mapping_ascii_lower] email_shape_def
      after_at_def ascii_def at_sign_def dot_def is_space_def)

theorem submit_reports_first_failure_witness:
  "formResponse (submit ascii_lower
      ((page_form (ascii ''  '') (ascii ''ann.example.org'') [])
         \<lparr>form := (form (page_form (ascii ''  '') (ascii ''ann.example.org'') []))
            \<lparr>f_email := None, f_message := None\<rparr>\<rparr>))
     = Some \<lparr>textContent = msg_name, color = error_color\<rparr>
   \<and> formResponse (submit ascii_lower
      ((page_form (ascii '' Ann '') (ascii ''ann.example.org'') [])
         \<lparr>form := (form (page_form (ascii '' Ann '') (ascii ''ann.example.org'') []))
            \<lparr>f_message := None\<rparr>\<rparr>))
     = Some \<lparr>textContent = msg_email, color = error_color\<rparr>
   \<and> formResponse (submit ascii_lower
      (page_form (ascii '' Ann '') (ascii ''ann@example.org'') (ascii '' Too short '')))
     = Some \<lparr>textContent = msg_length, color = error_color\<rparr>
   \<and> msg_name \<noteq> msg_email \<and> msg_name \<noteq> msg_length \<and> msg_email \<noteq> msg_length"
proof -
  let ?A = "page_form (ascii ''  '') (ascii ''ann.example.org'') []"
  let ?B = "page_form (ascii '' Ann '') (ascii ''ann.example.org'') []"
  let ?C = "page_form (ascii '' Ann '') (ascii ''ann@example.org'') (ascii '' Too short '')"
  have a: "field_value (f_name (form ?A)) = []" by (simp add: example_fields)
  have b: "field_value (f_name (form ?B)) \<noteq> []
      \<and> \<not> validateEmail ascii_lower (field_value (f_email (form ?B)))"
    by (simp add: example_fields example_emails) (simp add: ascii_def)
  have c: "field_value (f_name (form ?C)) \<noteq> []
      \<and> validateEmail ascii_lower (field_value (f_email (form ?C)))
      \<and> length (field_value (f_message (form ?C))) < 10"
    by (simp add: example_fields example_emails) (simp add: ascii_def)
  have r: "formResponse (page_form n e m) = Some \<lparr>textContent = [], color = []\<rparr>" for n e m
    by simp
  from submit_reports_first_failure [OF r, of "ascii ''  ''" "ascii ''ann.example.org''" "[]"
      ascii_lower None None] a
  have 1: "formResponse (submit ascii_lower (?A\<lparr>form := (form ?A)\<lparr>f_email := None, f_message := None\<rparr>\<rparr>))
      = Some \<lparr>textContent = msg_name, color = error_color\<rparr>" by blast
  from submit_reports_first_failure [OF r, of "ascii '' Ann ''" "ascii ''ann.example.org''" "[]"
      ascii_lower _ None] b
  have 2: "formResponse (submit ascii_lower (?B\<lparr>form := (form ?B)\<lparr>f_message := None\<rparr>\<rparr>))
      = Some \<lparr>textContent = msg_email, color = error_color\<rparr>" by blast
  from submit_reports_first_failure [OF r, of "ascii '' Ann ''" "ascii ''ann@example.org''"
      "ascii '' Too short ''" ascii_lower] c
  have 3: "formResponse (submit ascii_lower ?C)
      = Some \<lparr>textContent = msg_length, color = error_color\<rparr>"
    and 4: "distinct [msg_name, msg_email, msg_length]" by blast+
  from 1 2 3 4 show ?thesis by simp
qed

text \<open>
  C4. Where the response element exists, with a name that is not empty after trimming and
  an email that passes the check, a message of 9 code units after trimming is answered by
  the length message and nothing is scheduled; a message of 10 code units after trimming
  passes: the sending text is shown and the confirmation is scheduled.
\<close>

theorem submit_length_boundary:
  assumes r: "formResponse p = Some r"
    and n: "field_value (f_name (form p)) \<noteq> []"
    and e: "validateEmail lc (field_value (f_email (form p)))"
    and m: "f_message (form p) = Some c"
  shows "(length (trim (ctl_value c)) = 9 \<longrightarrow>
          formResponse (submit lc p) = Some \<lparr>textContent = msg_length, color = error_color\<rparr>
          \<and> timeouts (submit lc p) = timeouts p)
     \<and> (length (trim (ctl_value c)) = 10 \<longrightarrow>
          map_option textContent (formResponse (submit lc p)) = Some msg_sending
          \<and> timeouts (submit lc p) = timeouts p @ [(900, ConfirmSend)])"
proof -
  from m have fv: "field_value (f_message (form p)) = trim (ctl_value c)"
    by (simp add: field_value_Some)
  have 9: "submit lc p = p\<lparr>formResponse := Some \<lparr>textContent = msg_length, color = error_color\<rparr>\<rparr>"
    if "length (trim (ctl_value c)) = 9"
    using that fv by (intro submit_message_short [OF r n e]) simp
  have 10: "submit lc p = p\<lparr>formResponse :=
       Some \<lparr>textContent = msg_sending,
             color = (if accent p \<noteq> [] then accent p else ascii ''#0b77d1'')\<rparr>,
     timeouts := timeouts p @ [(900, ConfirmSend)]\<rparr>"
    if "length (trim (ctl_value c)) = 10"
    using that fv by (intro submit_valid [OF r n e]) simp
  from 9 10 show ?thesis by simp
qed

theorem submit_length_boundary_witness:
  "length (trim (ascii '' Too short '')) = 9
   \<and> formResponse (submit ascii_lower
        (page_form (ascii '' Ann '') (ascii ''ann@example.org'') (ascii '' Too short '')))
       = Some \<lparr>textContent = msg_length, color = error_color\<rparr>
   \<and> timeouts (submit ascii_lower
        (page_form (ascii '' Ann '') (ascii ''ann@example.org'') (ascii '' Too short ''))) = []
   \<and> length (trim (ascii ''Just right'')) = 10
   \<and> map_option textContent (formResponse (submit ascii_lower
        (page_form (ascii '' Ann '') (ascii ''ann@example.org'') (ascii ''Just right''))))
       = Some msg_sending
   \<and> timeouts (submit ascii_lower
        (page_form (ascii '' Ann '') (ascii ''ann@example.org'') (ascii ''Just right'')))
       = [(900, ConfirmSend)]"
proof -
  let ?P = "\<lambda>m. page_form (ascii '' Ann '') (ascii ''ann@example.org'') m"
  have r: "formResponse (?P m) = Some \<lparr>textContent = [], color = []\<rparr>" for m by simp
  have n: "field_value (f_name (form (?P m))) \<noteq> []" for m
    by (simp add: example_fields) (simp add: ascii_def)
  have e: "validateEmail ascii_lower (field_value (f_email (form (?P m))))" for m
    by (simp add: example_fields example_emails)
  have m: "f_message (form (?P m)) = Some \<lparr>ctl_value = m, ctl_default = []\<rparr>" for m by simp
  have l9: "length (trim (ascii '' Too short '')) = 9"
    by (simp add: example_fields) (simp add: ascii_def)
  have l10: "length (trim (ascii ''Just right'')) = 10"
    by (simp add: example_fields) (simp add: ascii_def)
  from submit_length_boundary [OF r n e m, of "ascii '' Too short ''"] l9
  have 1: "formResponse (submit ascii_lower (?P (ascii '' Too short '')))
       = Some \<lparr>textContent = msg_length, color = error_color\<rparr>
     \<and> timeouts (submit ascii_lower (?P (ascii '' Too short ''))) = []" by simp
  from submit_length_boundary [OF r n e m, of "ascii ''Just right''"] l10
  have 2: "map_option textContent (formResponse (submit ascii_lower (?P (ascii ''Just right''))))
       = Some msg_sending
     \<and> timeouts (submit ascii_lower (?P (ascii ''Just right''))) = [(900, ConfirmSend)]" by simp
  from l9 l10 1 2 show ?thesis by blast
qed

lemma submit_no_response: "formResponse p = None \<Longrightarrow> submit lc p = p"
  by (simp add: submit_def)

lemma submit_fails_frame:
  assumes "field_value (f_name (form p)) = []
      \<or> \<not> validateEmail lc (field_value (f_email (form p)))
      \<or> length (field_value (f_message (form p))) < 10"
  shows "submit lc p = p\<lparr>formResponse := formResponse (submit lc p)\<rparr>"
proof (cases "formResponse p")
  case None
  then show ?thesis by (simp add: submit_no_response)
next
  case (Some r)
  consider "field_value (f_name (form p)) = []"
    | "field_value (f_name (form p)) \<noteq> []" "\<not> validateEmail lc (field_value (f_email (form p)))"
    | "field_value (f_name (form p)) \<noteq> []" "validateEmail lc (field_value (f_email (form p)))"
      "length (field_value (f_message (form p))) < 10"
    using assms by blast
  then show ?thesis
  proof cases
    case 1
    then show ?thesis by (simp add: submit_name_empty [OF Some])
  next
    case 2
    then show ?thesis by (simp add: submit_email_invalid [OF Some])
  next
    case 3
    then show ?thesis by (simp add: submit_message_short [OF Some])
  qed
qed

text \<open>
  C8. When a rule fails, the listener changes nothing but the response element: the
  controls keep their values and no callback is scheduled. When every rule passes (and
  the response element exists), the controls still keep their values when the listener
  returns, the sending text is shown, and one callback is scheduled with a delay of 900
  milliseconds; that callback shows the confirmation and gives every control its default
  value.
\<close>

theorem submit_resets_only_after_success:
  "(field_value (f_name (form p)) = []
      \<or> \<not> validateEmail lc (field_value (f_email (form p)))
      \<or> length (field_value (f_message (form p))) < 10
     \<longrightarrow> submit lc p = p\<lparr>formResponse := formResponse (submit lc p)\<rparr>)
   \<and> (formResponse p = Some r \<and> field_value (f_name (form p)) \<noteq> []
       \<and> validateEmail lc (field_value (f_email (form p)))
       \<and> 10 \<le> length (field_value (f_message (form p)))
     \<longrightarrow> form (submit lc p) = form p
         \<and> map_option textContent (formResponse (submit lc p)) = Some msg_sending
         \<and> timeouts (submit lc p) = timeouts p @ [(900, ConfirmSend)])
   \<and> form (run_task ConfirmSend q) = form_reset (form q)
   \<and> map_option textContent (formResponse (run_task ConfirmSend q))
       = map_option (\<lambda>x. msg_thanks) (formResponse q)
   \<and> map_option ctl_value (f_name (form_reset f)) = map_option ctl_default (f_name f)
   \<and> map_option ctl_value (f_email (form_reset f)) = map_option ctl_default (f_email f)
   \<and> map_option ctl_value (f_message (form_reset f)) = map_option ctl_default (f_message f)"
proof -
  have 1: "submit lc p = p\<lparr>formResponse := formResponse (submit lc p)\<rparr>"
    if "field_value (f_name (form p)) = []
      \<or> \<not> validateEmail lc (field_value (f_email (form p)))
      \<or> length (field_value (f_message (form p))) < 10"
    using that by (rule submit_fails_frame)
  have 2: "form (submit lc p) = form p
         \<and> map_option textContent (formResponse (submit lc p)) = Some msg_sending
         \<and> timeouts (submit lc p) = timeouts p @ [(900, ConfirmSend)]"
    if "formResponse p = Some r" "field_value (f_name (form p)) \<noteq> []"
      "validateEmail lc (field_value (f_email (form p)))"
      "10 \<le> length (field_value (f_message (form p)))"
    by (simp add: submit_valid [OF that])
  have 3: "form (run_task ConfirmSend q) = form_reset (form q)" by simp
  have 4: "map_option textContent (formResponse (run_task ConfirmSend q))
       = map_option (\<lambda>x. msg_thanks) (formResponse q)"
    by (simp add: option.map_comp comp_def)
  have 5: "map_option ctl_value (reset_control c) = map_option ctl_default c" for c
    by (simp add: reset_control_def option.map_comp comp_def)
  from 1 2 3 4 5 show ?thesis by (simp add: form_reset_def)
qed

theorem submit_resets_only_after_success_witness:
  "form (submit ascii_lower
      (page_form (ascii '' Ann '') (ascii ''ann.example.org'') (ascii ''Just right'')))
     = form (page_form (ascii '' Ann '') (ascii ''ann.example.org'') (ascii ''Just right''))
   \<and> timeouts (submit ascii_lower
      (page_form (ascii '' Ann '') (ascii ''ann.example.org'') (ascii ''Just right''))) = []
   \<and> form (submit ascii_lower
      (page_form (ascii '' Ann '') (ascii ''ann@example.org'') (ascii ''Just right'')))
     = form (page_form (ascii '' Ann '') (ascii ''ann@example.org'') (ascii ''Just right''))
   \<and> timeouts (submit ascii_lower
      (page_form (ascii '' Ann '') (ascii ''ann@example.org'') (ascii ''Just right'')))
     = [(900, ConfirmSend)]
   \<and> form (timeout_fires (submit ascii_lower
      (page_form (ascii '' Ann '') (ascii ''ann@example.org'') (ascii ''Just right''))))
     = form (page_form [] [] [])
   \<and> map_option textContent (formResponse (timeout_fires (submit ascii_lower
      (page_form (ascii '' Ann '') (ascii ''ann@example.org'') (ascii ''Just right'')))))
     = Some msg_thanks"
proof -
  let ?B = "page_form (ascii '' Ann '') (ascii ''ann.example.org'') (ascii ''Just right'')"
  let ?G = "page_form (ascii '' Ann '') (ascii ''ann@example.org'') (ascii ''Just right'')"
  note main = submit_resets_only_after_success
  have bad: "\<not> validateEmail ascii_lower (field_value (f_email (form ?B)))"
    by (simp add: example_fields example_emails)
  from main [of ?B ascii_lower] bad
  have b: "submit ascii_lower ?B = ?B\<lparr>formResponse := formResponse (submit ascii_lower ?B)\<rparr>"
    by blast
  have 1: "form (submit ascii_lower ?B) = form ?B" by (subst b) simp
  have 2: "timeouts (submit ascii_lower ?B) = []" by (subst b) simp
  have good: "formResponse ?G = Some \<lparr>textContent = [], color = []\<rparr>
      \<and> field_value (f_name (form ?G)) \<noteq> []
      \<and> validateEmail ascii_lower (field_value (f_email (form ?G)))
      \<and> 10 \<le> length (field_value (f_message (form ?G)))"
    by (simp add: example_fields example_emails) (simp add: ascii_def)
  from main [of ?G ascii_lower "\<lparr>textContent = [], color = []\<rparr>"] good
  have g: "form (submit ascii_lower ?G) = form ?G
      \<and> map_option textContent (formResponse (submit ascii_lower ?G)) = Some msg_sending
      \<and> timeouts (submit ascii_lower ?G) = timeouts ?G @ [(900, ConfirmSend)]"
    by blast
  then have 3: "form (submit ascii_lower ?G) = form ?G"
    and 4: "timeouts (submit ascii_lower ?G) = [(900, ConfirmSend)]" by simp_all
  from g obtain x where x: "formResponse (submit ascii_lower ?G) = Some x" by auto
  let ?S = "(submit ascii_lower ?G)\<lparr>timeouts := []\<rparr>"
  have f: "timeout_fires (submit ascii_lower ?G) = run_task ConfirmSend ?S"
    by (simp add: timeout_fires_def 4)
  from main [of _ _ _ ?S]
  have "form (run_task ConfirmSend ?S) = form_reset (form ?S)
      \<and> map_option textContent (formResponse (run_task ConfirmSend ?S))
        = map_option (\<lambda>x. msg_thanks) (formResponse ?S)"
    by blast
  with f 3 x have 5: "form (timeout_fires (submit ascii_lower ?G)) = form (page_form [] [] [])"
    and 6: "map_option textContent (formResponse (timeout_fires (submit ascii_lower ?G)))
        = Some msg_thanks"
    by (simp_all add: form_reset_def reset_control_def page_form_def)
  from 1 2 3 4 5 6 show ?thesis by blast
qed

section \<open>Properties of the reveal observer\<close>

lemma classList_add_idem [simp]:
  "classList_add c (classList_add c cl) = classList_add c cl"
  by (simp add: classList_add_def)

lemma classList_add_contains [simp]: "classList_contains c (classList_add c cl)"
  by (simp add: classList_add_def classList_contains_def)

lemma observer_callback_classes:
  "classes (observer_callback ents st) e =
     (if list_ex (\<lambda>ent. target ent = e \<and> isIntersecting ent) ents
      then classList_add is_visible (classes st e) else classes st e)"
  by (induction ents arbitrary: st) auto

lemma observer_callback_observed:
  "observed (observer_callback ents st) =
     observed st - {t. list_ex (\<lambda>ent. target ent = t \<and> isIntersecting ent) ents}"
  by (induction ents arbitrary: st) auto

lemma deliver_classes:
  "classes (deliver b st) e =
     (if e \<in> observed st \<and> intersects e b
      then classList_add is_visible (classes st e) else classes st e)"
  by (auto simp: deliver_def observer_callback_classes intersects_def list_ex_iff)

lemma deliver_observed:
  "observed (deliver b st) = observed st - {t. intersects t b}"
  by (auto simp: deliver_def observer_callback_observed intersects_def list_ex_iff)

lemma deliver_revealed: "revealed st e \<Longrightarrow> revealed (deliver b st) e"
  by (simp add: revealed_def deliver_classes classList_add_def classList_contains_def)

lemma reveal_run_Cons [simp]: "reveal_run st (b # bs) = reveal_run (deliver b st) bs"
  by (simp add: reveal_run_def)

lemma reveal_run_Nil [simp]: "reveal_run st [] = st"
  by (simp add: reveal_run_def)

lemma reveal_run_revealed: "revealed st e \<Longrightarrow> revealed (reveal_run st bs) e"
  by (induction bs arbitrary: st) (simp_all add: deliver_revealed)

lemma reveal_run_unobserved:
  "e \<notin> observed st \<Longrightarrow> classes (reveal_run st bs) e = classes st e"
  by (induction bs arbitrary: st) (simp_all add: deliver_classes deliver_observed)

lemma reveal_run_never_intersects:
  "\<not> list_ex (intersects e) bs \<Longrightarrow> classes (reveal_run st bs) e = classes st e"
  by (induction bs arbitrary: st) (simp_all add: deliver_classes)

lemma reveal_count_revealed: "revealed st e \<Longrightarrow> reveal_count st bs e = 0"
  by (induction bs arbitrary: st) (simp_all add: deliver_revealed)

lemma reveal_count_le_1: "reveal_count st bs e \<le> 1"
proof (induction bs arbitrary: st)
  case Nil
  then show ?case by simp
next
  case (Cons b bs)
  show ?case
  proof (cases "\<not> revealed st e \<and> revealed (deliver b st) e")
    case True
    then have "reveal_count (deliver b st) bs e = 0" by (simp add: reveal_count_revealed)
    with True show ?thesis by simp
  next
    case False
    with Cons.IH [of "deliver b st"] show ?thesis by auto
  qed
qed

lemma reveal_run_observed: "observed (reveal_run st bs) \<subseteq> observed st"
proof (induction bs arbitrary: st)
  case Nil
  then show ?case by simp
next
  case (Cons b bs)
  have "observed (reveal_run (deliver b st) bs) \<subseteq> observed (deliver b st)" by (rule Cons.IH)
  also have "\<dots> \<subseteq> observed st" by (auto simp: deliver_observed)
  finally show ?case by simp
qed

lemma deliver_reveals:
  "e \<in> observed st \<Longrightarrow> intersects e b \<Longrightarrow>
   revealed (deliver b st) e \<and> e \<notin> observed (deliver b st)"
  by (simp add: revealed_def deliver_classes deliver_observed)

lemma reveal_run_reveals:
  "e \<in> observed st \<Longrightarrow> list_ex (intersects e) bs \<Longrightarrow>
   revealed (reveal_run st bs) e \<and> e \<notin> observed (reveal_run st bs)"
proof (induction bs arbitrary: st)
  case Nil
  then show ?case by simp
next
  case (Cons b bs)
  show ?case
  proof (cases "intersects e b")
    case True
    with Cons.prems(1) have r: "revealed (deliver b st) e" and u: "e \<notin> observed (deliver b st)"
      by (simp_all add: deliver_reveals)
    from r have "revealed (reveal_run (deliver b st) bs) e" by (rule reveal_run_revealed)
    moreover from u reveal_run_observed [of "deliver b st" bs]
    have "e \<notin> observed (reveal_run (deliver b st) bs)" by blast
    ultimately show ?thesis by simp
  next
    case False
    with Cons.prems have "e \<in> observed (deliver b st)" and "list_ex (intersects e) bs"
      by (simp_all add: deliver_observed)
    then show ?thesis using Cons.IH [of "deliver b st"] by simp
  qed
qed

text \<open>
  C9. A watched element that some batch of a run reports as intersecting is revealed and
  no longer watched at the end of the run, whatever the batches after it report; after
  the batch that reports it, it is revealed and no longer watched at once. An element that
  is revealed stays revealed under every sequence of batches, and goes from not revealed
  to revealed at most once. The class list of an element that is not watched is not
  changed again, and the class list of an element that no batch reports as intersecting
  is not changed at all.
\<close>

theorem reveal_once_and_for_all:
  "(e \<in> observed st \<and> list_ex (intersects e) bs \<longrightarrow>
        revealed (reveal_run st bs) e \<and> e \<notin> observed (reveal_run st bs))
   \<and> (e \<in> observed st \<and> intersects e b \<longrightarrow>
        revealed (deliver b st) e \<and> e \<notin> observed (deliver b st))
   \<and> (revealed st e \<longrightarrow> revealed (reveal_run st bs) e)
   \<and> reveal_count st bs e \<le> 1
   \<and> (e \<notin> observed st \<longrightarrow> classes (reveal_run st bs) e = classes st e)
   \<and> (\<not> list_ex (intersects e) bs \<longrightarrow> classes (reveal_run st bs) e = classes st e)"
proof -
  note 2 = reveal_count_le_1 [of st bs e]
  from 2 show ?thesis
    by (simp add: reveal_run_reveals deliver_reveals reveal_run_revealed reveal_run_unobserved
        reveal_run_never_intersects)
qed

theorem reveal_once_and_for_all_witness:
  "1 \<in> observed reveal_example
   \<and> list_ex (intersects 1) [batch_outside, batch_enter, batch_outside]
   \<and> revealed (reveal_run reveal_example [batch_outside, batch_enter, batch_outside]) 1
   \<and> 1 \<notin> observed (reveal_run reveal_example [batch_outside, batch_enter, batch_outside])
   \<and> 2 \<in> observed reveal_example
   \<and> list_ex (intersects 2) [batch_enter, batch_outside, batch_second]
   \<and> revealed (reveal_run reveal_example [batch_enter, batch_outside, batch_second]) 2
   \<and> 2 \<notin> observed (reveal_run reveal_example [batch_enter, batch_outside, batch_second])
   \<and> intersects 1 batch_enter
   \<and> revealed (deliver batch_enter reveal_example) 1
   \<and> 1 \<notin> observed (deliver batch_enter reveal_example)
   \<and> revealed (reveal_run (deliver batch_enter reveal_example) [batch_outside, batch_enter]) 1
   \<and> classes (reveal_run (deliver batch_enter reveal_example) [batch_outside, batch_enter]) 1
       = classes (deliver batch_enter reveal_example) 1
   \<and> reveal_count reveal_example [batch_enter, batch_outside, batch_enter] 1 \<le> 1
   \<and> \<not> list_ex (intersects 2) [batch_enter, batch_outside, batch_enter]
   \<and> classes (reveal_run reveal_example [batch_enter, batch_outside, batch_enter]) 2 = []"
proof -
  let ?s1 = "deliver batch_enter reveal_example"
  let ?bs = "[batch_enter, batch_outside, batch_enter]"
  let ?cs = "[batch_outside, batch_enter, batch_outside]"
  have a: "1 \<in> observed reveal_example \<and> intersects 1 batch_enter"
    by (simp add: reveal_example_def reveal_init_def batch_enter_def intersects_def)
  have a': "list_ex (intersects 1) ?cs"
    by (simp add: batch_enter_def intersects_def)
  from reveal_once_and_for_all [of 1 reveal_example ?cs] a a'
  have r: "revealed (reveal_run reveal_example ?cs) 1
      \<and> 1 \<notin> observed (reveal_run reveal_example ?cs)"
    by blast
  have a2: "2 \<in> observed reveal_example
      \<and> list_ex (intersects 2) [batch_enter, batch_outside, batch_second]"
    by (simp add: reveal_example_def reveal_init_def batch_enter_def batch_outside_def
        batch_second_def intersects_def)
  from reveal_once_and_for_all [of 2 reveal_example "[batch_enter, batch_outside, batch_second]"] a2
  have r2: "revealed (reveal_run reveal_example [batch_enter, batch_outside, batch_second]) 2
      \<and> 2 \<notin> observed (reveal_run reveal_example [batch_enter, batch_outside, batch_second])"
    by blast
  from reveal_once_and_for_all [of 1 reveal_example ?bs batch_enter] a
  have b: "revealed ?s1 1 \<and> 1 \<notin> observed ?s1" and c: "reveal_count reveal_example ?bs 1 \<le> 1"
    by blast+
  from reveal_once_and_for_all [of 1 ?s1 "[batch_outside, batch_enter]"] b
  have d: "revealed (reveal_run ?s1 [batch_outside, batch_enter]) 1
      \<and> classes (reveal_run ?s1 [batch_outside, batch_enter]) 1 = classes ?s1 1"
    by blast
  have e: "\<not> list_ex (intersects 2) ?bs"
    by (simp add: batch_enter_def batch_outside_def intersects_def)
  have f: "classes reveal_example 2 = []"
    by (simp add: reveal_example_def reveal_init_def)
  from reveal_once_and_for_all [of 2 reveal_example ?bs] e f
  have g: "classes (reveal_run reveal_example ?bs) 2 = []" by simp
  from a a' r a2 r2 b c d e g show ?thesis by blast
qed

end
